theory Spec2Isabelle
  imports Main "HOL-Library.Monad_Syntax" "HOL-Library.AList"
begin

section \<open>The page loader of pagelogic (src/code/loader.ts)\<close>

text \<open>
  The loader reads a page source, resolves \<open>:include\<close> and \<open>:import\<close> directives,
  collects \<open>:define\<close> macros and expands macro uses. The source mutates syntax-tree
  objects in place and finds nodes again by object identity (\<open>indexOf\<close>), so the
  tree is embedded as an explicit store: every node lives at an address, an element
  holds the addresses of its children. A function that throws, or that does not return,
  has the value \<open>None\<close>. Strings are lists of bytes, the UTF-8 encoding of the text;
  the source positions that
  the nodes carry (\<open>start\<close>, \<open>end\<close>, \<open>loc\<close>) play no part in what the loader does and
  are left out.
\<close>

subsection \<open>Constants\<close>

definition MAX_NESTING :: nat where "MAX_NESTING = 100"
definition TAGS_PREFIX :: string where "TAGS_PREFIX = '':''"
definition INCLUDE_TAG :: string where "INCLUDE_TAG = '':include''"
definition IMPORT_TAG :: string where "IMPORT_TAG = '':import''"
definition INCLUDE_SRC_ATTR :: string where "INCLUDE_SRC_ATTR = ''src''"
definition DEFINE_TAG :: string where "DEFINE_TAG = '':define''"
definition DEFINE_TAG_ATTR :: string where "DEFINE_TAG_ATTR = ''tag''"
definition SLOT_TAG :: string where "SLOT_TAG = '':slot''"
definition SLOT_NAME_ATTR :: string where "SLOT_NAME_ATTR = ''name''"
definition SLOT_DEFAULT_NAME :: string where "SLOT_DEFAULT_NAME = ''default''"

subsection \<open>Strings and JavaScript arrays\<close>

text \<open>\<open>s.startsWith(p)\<close>.\<close>

fun startsWith :: "string \<Rightarrow> string \<Rightarrow> bool" where
  "startsWith s [] = True"
| "startsWith [] (p # ps) = False"
| "startsWith (c # cs) (p # ps) = (c = p \<and> startsWith cs ps)"

text \<open>
  The class \<open>\s\<close> of a regular expression, which is also what \<open>trim\<close> strips:
  the characters of one byte (space, tab, line feed, vertical tab, form feed, carriage
  return), the character U+00A0 of two bytes, and the characters U+1680, U+2000 to
  U+200A, U+2028, U+2029, U+202F, U+205F, U+3000 and U+FEFF of three bytes.
\<close>

definition is_space :: "char \<Rightarrow> bool" where
  "is_space c = (c \<in> set [CHR '' '', CHR 0x09, CHR 0x0A, CHR 0x0B, CHR 0x0C, CHR 0x0D])"

definition is_space2 :: "char \<Rightarrow> char \<Rightarrow> bool" where
  "is_space2 c d = (c = CHR 0xC2 \<and> d = CHR 0xA0)"

definition is_space3 :: "char \<Rightarrow> char \<Rightarrow> char \<Rightarrow> bool" where
  "is_space3 c d e =
     ((c = CHR 0xE1 \<and> d = CHR 0x9A \<and> e = CHR 0x80)
      \<or> (c = CHR 0xE2 \<and> d = CHR 0x80
           \<and> ((128 \<le> (of_char e :: nat) \<and> (of_char e :: nat) \<le> 138)
                \<or> e = CHR 0xA8 \<or> e = CHR 0xA9 \<or> e = CHR 0xAF))
      \<or> (c = CHR 0xE2 \<and> d = CHR 0x81 \<and> e = CHR 0x9F)
      \<or> (c = CHR 0xE3 \<and> d = CHR 0x80 \<and> e = CHR 0x80)
      \<or> (c = CHR 0xEF \<and> d = CHR 0xBB \<and> e = CHR 0xBF))"

text \<open>\<open>/^\s*$/.test(s)\<close>; \<open>!s.trim()\<close> is the same test.\<close>

fun is_blank :: "string \<Rightarrow> bool" where
  "is_blank [] = True"
| "is_blank [c] = is_space c"
| "is_blank [c, d] = ((is_space c \<and> is_space d) \<or> is_space2 c d)"
| "is_blank (c # d # e # cs) =
     (if is_space c then is_blank (d # e # cs)
      else if is_space2 c d then is_blank (e # cs)
      else is_space3 c d e \<and> is_blank cs)"

text \<open>The class \<open>[\-\w]\<close>: letters, digits, underscore and dash.\<close>

definition is_tag_char :: "char \<Rightarrow> bool" where
  "is_tag_char c =
     (let n = of_char c :: nat
      in (65 \<le> n \<and> n \<le> 90) \<or> (97 \<le> n \<and> n \<le> 122) \<or> (48 \<le> n \<and> n \<le> 57)
         \<or> c = CHR ''_'' \<or> c = CHR ''-'')"

text \<open>\<open>xs.indexOf(x)\<close>: the first index of \<open>x\<close>, or \<open>-1\<close>.\<close>

fun indexOf :: "'a list \<Rightarrow> 'a \<Rightarrow> int" where
  "indexOf [] x = -1"
| "indexOf (y # ys) x =
     (if y = x then 0 else (let i = indexOf ys x in if i < 0 then -1 else i + 1))"

text \<open>
  \<open>xs.splice(start, deleteCount, ...items)\<close>: a negative start counts from the end,
  and the start is clamped to the array.
\<close>

definition splice :: "'a list \<Rightarrow> int \<Rightarrow> nat \<Rightarrow> 'a list \<Rightarrow> 'a list" where
  "splice xs start deleteCount items' =
     (let len = int (length xs);
          s = nat (if start < 0 then max (len + start) 0 else min start len)
      in take s xs @ items' @ drop (s + deleteCount) xs)"

subsection \<open>Objects as dictionaries\<close>

text \<open>
  The loader keeps its dictionaries (the registry of macros, the slots of a macro body)
  in plain objects, made by \<open>{}\<close>. A lookup \<open>d[k]\<close> finds an own property of \<open>d\<close>, or
  else a property of its prototype chain. The chain ends in \<open>Object.prototype\<close>, whose
  properties are the functions named below and \<open>__proto__\<close>, an accessor that reads and
  writes the prototype: \<open>d['__proto__']\<close> is the prototype of \<open>d\<close>, and the assignment
  \<open>d['__proto__'] = v\<close> of an object \<open>v\<close> makes no own property but puts \<open>v\<close> into the
  chain, so that the lookups in \<open>d\<close> find the properties of \<open>v\<close> as well. Every other
  assignment \<open>d[k] = v\<close> makes or overwrites an own property.
\<close>

definition object_prototype_keys :: "string list" where
  "object_prototype_keys =
     [''constructor'', ''__defineGetter__'', ''__defineSetter__'', ''hasOwnProperty'',
      ''__lookupGetter__'', ''__lookupSetter__'', ''isPrototypeOf'', ''propertyIsEnumerable'',
      ''toString'', ''valueOf'', ''__proto__'', ''toLocaleString'']"

text \<open>
  What a lookup finds: an entry of the dictionary; or a value of another kind (a
  function, the prototype, a string or a node), which JavaScript takes for true and
  which has none of the fields of an entry; or nothing. The value of another kind comes
  with the text that its property \<open>name\<close> has in a template string: the name of the
  function, or \<open>undefined\<close>.
\<close>

datatype 'v property = Entry 'v | Foreign string | Absent

text \<open>The lookup of a key in \<open>Object.prototype\<close>.\<close>

definition object_property :: "string \<Rightarrow> 'v property" where
  "object_property k =
     (if k = ''__proto__'' then Foreign ''undefined''
      else if k = ''constructor'' then Foreign ''Object''
      else if k \<in> set object_prototype_keys then Foreign k
      else Absent)"

subsection \<open>Paths (the POSIX flavour of Node's \<open>path\<close> module)\<close>

fun split_sep :: "string \<Rightarrow> string list" where
  "split_sep [] = [[]]"
| "split_sep (c # cs) =
     (if c = CHR ''/'' then [] # split_sep cs
      else (case split_sep cs of [] \<Rightarrow> [[c]] | s # ss \<Rightarrow> (c # s) # ss))"

fun join_sep :: "string list \<Rightarrow> string" where
  "join_sep [] = []"
| "join_sep [s] = s"
| "join_sep (s # t # ss) = s @ ''/'' @ join_sep (t # ss)"

text \<open>
  One segment of \<open>normalizeString\<close>: the segments kept so far are a stack (last
  segment first); empty segments and \<open>.\<close> are skipped, \<open>..\<close> pops a segment, or is
  kept when the path is relative and there is nothing to pop.
\<close>

definition norm_step :: "bool \<Rightarrow> string list \<Rightarrow> string \<Rightarrow> string list" where
  "norm_step allowAboveRoot stack seg =
     (if seg = [] \<or> seg = ''.'' then stack
      else if seg = ''..'' then
        (case stack of
           [] \<Rightarrow> if allowAboveRoot then [''..''] else []
         | t # rest \<Rightarrow>
             if t \<noteq> ''..'' then rest
             else if allowAboveRoot then ''..'' # stack else stack)
      else seg # stack)"

definition normalizeString :: "string \<Rightarrow> bool \<Rightarrow> string" where
  "normalizeString p allowAboveRoot =
     join_sep (rev (foldl (norm_step allowAboveRoot) [] (split_sep p)))"

definition path_normalize :: "string \<Rightarrow> string" where
  "path_normalize p =
     (if p = [] then ''.''
      else
        let isAbsolute = (hd p = CHR ''/'');
            trailingSeparator = (last p = CHR ''/'');
            q = normalizeString p (\<not> isAbsolute)
        in if q = [] then (if isAbsolute then ''/'' else if trailingSeparator then ''./'' else ''.'')
           else (if isAbsolute then ''/'' else []) @ q @ (if trailingSeparator then ''/'' else []))"

definition path_join :: "string list \<Rightarrow> string" where
  "path_join args =
     (let parts = filter (\<lambda>a. a \<noteq> []) args
      in if parts = [] then ''.'' else path_normalize (join_sep parts))"

text \<open>
  \<open>path.relative(from, to)\<close> for absolute paths: drop the common leading segments,
  climb out of what is left of \<open>from\<close>, descend into what is left of \<open>to\<close>.
\<close>

fun drop_common :: "string list \<Rightarrow> string list \<Rightarrow> string list \<times> string list" where
  "drop_common (x # xs) (y # ys) =
     (if x = y then drop_common xs ys else (x # xs, y # ys))"
| "drop_common xs ys = (xs, ys)"

definition path_relative :: "string \<Rightarrow> string \<Rightarrow> string" where
  "path_relative from to =
     (let fs = filter (\<lambda>s. s \<noteq> []) (split_sep (path_normalize from));
          ts = filter (\<lambda>s. s \<noteq> []) (split_sep (path_normalize to));
          (fs', ts') = drop_common fs ts
      in join_sep (replicate (length fs') ''..'' @ ts'))"

text \<open>
  \<open>path.dirname(p)\<close>: the scan runs from the last character down to index 1, skips
  trailing separators and stops at the separator before the last segment.
\<close>

definition path_dirname :: "string \<Rightarrow> string" where
  "path_dirname p =
     (if p = [] then ''.''
      else
        let hasRoot = (hd p = CHR ''/'');
            scan = dropWhile (\<lambda>c. c \<noteq> CHR ''/'')
                     (dropWhile (\<lambda>c. c = CHR ''/'') (rev (tl p)));
            end' = length scan
        in if scan = [] then (if hasRoot then ''/'' else ''.'')
           else if hasRoot \<and> end' = 1 then ''//''
           else take end' p)"

subsection \<open>Syntax trees\<close>

text \<open>
  An attribute value is a literal or an expression fragment, which the loader carries
  verbatim; an attribute written without a value has none.
\<close>

datatype attr_value = Literal string | Expression string | NoValue

type_synonym attr = "string \<times> attr_value"

text \<open>
  The tree as the parser delivers it, and as \<open>JSON.stringify\<close> writes it: an element
  with its tag, attributes, self-closing marker, closing tag name and children; a
  text; an expression fragment.
\<close>

datatype jsx =
    Element string "attr list" bool "string option" "jsx list"
  | Text string
  | ExpressionContainer string

text \<open>
  Modelled from the spec: the parser (\<open>./parser\<close>) is not part of the sources. It
  returns a program or throws; the loader looks at the first statement of the body
  only, which must be an expression statement holding a markup element.
\<close>

datatype stmt = ExpressionStatement jsx | OtherStatement

type_synonym addr = nat

record element =
  tag :: string
  attributes :: "attr list"
  selfClosing :: bool
  closingTag :: "string option"
  children :: "addr list"

datatype node = JSXElement element | JSXText string | JSXExpression string

type_synonym heap = "addr \<Rightarrow> node option"

definition elem_at :: "heap \<Rightarrow> addr \<Rightarrow> element option" where
  "elem_at h a = (case h a of Some (JSXElement e) \<Rightarrow> Some e | _ \<Rightarrow> None)"

text \<open>
  Building the objects of a tree (the parser's result, and \<open>JSON.parse\<close>): every node
  gets a fresh address, \<open>n\<close> being the next free one.
\<close>

fun alloc :: "jsx \<Rightarrow> heap \<Rightarrow> addr \<Rightarrow> addr \<times> heap \<times> addr"
  and allocs :: "jsx list \<Rightarrow> heap \<Rightarrow> addr \<Rightarrow> addr list \<times> heap \<times> addr" where
  "alloc (Text s) h n = (n, h(n \<mapsto> JSXText s), Suc n)"
| "alloc (ExpressionContainer s) h n = (n, h(n \<mapsto> JSXExpression s), Suc n)"
| "alloc (Element t ats sc cl cs) h n =
     (case allocs cs h (Suc n) of
        (as, h', n') \<Rightarrow>
          (n, h'(n \<mapsto> JSXElement \<lparr>tag = t, attributes = ats, selfClosing = sc,
                                   closingTag = cl, children = as\<rparr>), n'))"
| "allocs [] h n = ([], h, n)"
| "allocs (c # cs) h n =
     (case alloc c h n of
        (a, h', n') \<Rightarrow> (case allocs cs h' n' of (as, h'', n'') \<Rightarrow> (a # as, h'', n'')))"

text \<open>
  \<open>JSON.stringify\<close> of the node at an address. It throws on a cyclic structure; the
  stack of ancestors detects that, and the result is then \<open>None\<close>, as for an address
  that holds no node. Addresses below \<open>n\<close> are in use.
\<close>

function snapshot :: "heap \<Rightarrow> addr \<Rightarrow> addr list \<Rightarrow> addr \<Rightarrow> jsx option" where
  "snapshot h n anc a =
     (if a \<in> set anc \<or> n \<le> a then None
      else case h a of
        None \<Rightarrow> None
      | Some (JSXText s) \<Rightarrow> Some (Text s)
      | Some (JSXExpression s) \<Rightarrow> Some (ExpressionContainer s)
      | Some (JSXElement e) \<Rightarrow>
          map_option (Element (tag e) (attributes e) (selfClosing e) (closingTag e))
            (those (map (snapshot h n (a # anc)) (children e))))"
  by pat_completeness auto

lemma card_unvisited_less:
  assumes "a \<notin> set anc" "\<not> n \<le> a"
  shows "card ({..<n} - set (a # anc)) < card ({..<n::nat} - set anc)"
proof (rule psubset_card_mono)
  show "finite ({..<n} - set anc)" by simp
  have "a \<in> {..<n} - set anc" using assms by simp
  moreover have "a \<notin> {..<n} - set (a # anc)" by simp
  moreover have "{..<n} - set (a # anc) \<subseteq> {..<n} - set anc" by auto
  ultimately show "{..<n} - set (a # anc) \<subset> {..<n} - set anc" by blast
qed

termination snapshot
  apply (relation "measure (\<lambda>(h, n, anc, a). card ({..<n} - set anc))")
   apply simp
  subgoal for h n anc a
    using card_unvisited_less[of a anc n] by simp
  done

text \<open>
  Modelled from the spec: the walker (\<open>./walker\<close>) is not part of the sources. It
  walks a tree with the stack of ancestors and calls the visitor on every element.
  All three visitors of the loader skip a node whose parent is not an element, so the
  walk returns the pairs (element, parent element) below the start node. Expression
  fragments are opaque. The spec calls the order document order; the walk of acorn-walk,
  which the source cites, calls the visitor of a node after the node's children. The
  flag \<open>after\<close> selects between the two, and the results below hold for both. A walk
  of a cyclic structure does not return: that is the value \<open>None\<close>.
\<close>

function walk :: "bool \<Rightarrow> heap \<Rightarrow> addr \<Rightarrow> addr list \<Rightarrow> addr \<Rightarrow> (addr \<times> addr) list option" where
  "walk after h n anc a =
     (if a \<in> set anc \<or> n \<le> a then None
      else case h a of
        None \<Rightarrow> None
      | Some (JSXText s) \<Rightarrow> Some []
      | Some (JSXExpression s) \<Rightarrow> Some []
      | Some (JSXElement e) \<Rightarrow>
          (case those (map (walk after h n (a # anc)) (children e)) of
             None \<Rightarrow> None
           | Some below \<Rightarrow>
               let self = (case anc of [] \<Rightarrow> [] | parent # _ \<Rightarrow> [(a, parent)])
               in Some (if after then concat below @ self else self @ concat below)))"
  by pat_completeness auto

termination walk
  apply (relation "measure (\<lambda>(after, h, n, anc, a). card ({..<n} - set anc))")
   apply simp
  subgoal for after h n anc a
    using card_unvisited_less[of a anc n] by simp
  done

subsection \<open>The load session\<close>

datatype severity = Error | Warning

text \<open>A diagnostic: severity, message, and the node it comes from.\<close>

datatype code_error = CodeError severity string "addr option"

datatype macro_def =
  MacroDefinition (mname: string) (mnode: addr) (mbase: string) (mfrom: "macro_def option")

text \<open>
  The session (\<open>CodeLoaderSource\<close>) with the store of all nodes created during the
  load; \<open>nxt\<close> is the next free address. The registry is the object \<open>macros\<close>,
  used as a dictionary: the field \<open>macros\<close> holds its own properties, and
  \<open>macros_proto\<close> the descriptor that an assignment to the key \<open>__proto__\<close> has made
  its prototype, if there was one.
\<close>

record session =
  heap :: heap
  nxt :: addr
  files :: "string list"
  errors :: "code_error list"
  macros :: "string \<rightharpoonup> macro_def"
  macros_proto :: "macro_def option"

text \<open>
  The loader with its collaborators: the document root, the file system (a read fails
  with \<open>None\<close>), the parser (\<open>Inl\<close> is the error it throws), and the order of the walker.
\<close>

record loader =
  rootPath :: string
  readFile :: "string \<Rightarrow> string option"
  parser :: "string \<Rightarrow> string \<Rightarrow> string + stmt list"
  visitAfter :: bool

definition push_error :: "code_error \<Rightarrow> session \<Rightarrow> session" where
  "push_error e s = s\<lparr>errors := errors s @ [e]\<rparr>"

text \<open>
  An assignment to the fields of the element at an address. It throws when there is no
  element there; every failure of that kind is the value \<open>None\<close>.
\<close>

definition update_element :: "addr \<Rightarrow> (element \<Rightarrow> element) \<Rightarrow> session \<Rightarrow> session option" where
  "update_element a f s =
     (case elem_at (heap s) a of
        None \<Rightarrow> None
      | Some e \<Rightarrow> Some (s\<lparr>heap := (heap s)(a \<mapsto> JSXElement (f e))\<rparr>))"

definition new_node :: "node \<Rightarrow> session \<Rightarrow> addr \<times> session" where
  "new_node v s = (nxt s, s\<lparr>heap := (heap s)(nxt s \<mapsto> v), nxt := Suc (nxt s)\<rparr>)"

text \<open>
  \<open>source.macros[k]\<close>. A descriptor that is the prototype of the registry lends it
  its fields: the name, the base and the node, which are no descriptors, and the
  descriptor it inherits from, if it has one.
\<close>

definition macro_get :: "session \<Rightarrow> string \<Rightarrow> macro_def property" where
  "macro_get s k =
     (if k = ''__proto__'' then
        (case macros_proto s of None \<Rightarrow> object_property k | Some m \<Rightarrow> Entry m)
      else case macros s k of
        Some m \<Rightarrow> Entry m
      | None \<Rightarrow>
          (case macros_proto s of
             None \<Rightarrow> object_property k
           | Some m \<Rightarrow>
               if k = ''name'' \<or> k = ''node'' \<or> k = ''base'' then Foreign ''undefined''
               else if k = ''from'' then (case mfrom m of None \<Rightarrow> Absent | Some f \<Rightarrow> Entry f)
               else object_property k))"

text \<open>\<open>source.macros[k] = m\<close>.\<close>

definition macro_set :: "string \<Rightarrow> macro_def \<Rightarrow> session \<Rightarrow> session" where
  "macro_set k m s =
     (if k = ''__proto__'' then s\<lparr>macros_proto := Some m\<rparr>
      else s\<lparr>macros := (macros s)(k \<mapsto> m)\<rparr>)"

subsection \<open>Attribute helpers\<close>

text \<open>
  Modelled from the spec: the helpers of \<open>./utils\<close> are not part of the sources.
  \<open>getJSXAttributeKeys\<close> lists the attribute names of an opening tag,
  \<open>getJSXAttributeNode\<close> finds the attribute of a name, \<open>getJSXAttribute\<close> reads the
  string of a literal attribute, \<open>removeJSXAttribute\<close> deletes the attribute of a name.
\<close>

definition getJSXAttributeKeys :: "element \<Rightarrow> string list" where
  "getJSXAttributeKeys e = map fst (attributes e)"

definition getJSXAttributeNode :: "element \<Rightarrow> string \<Rightarrow> attr option" where
  "getJSXAttributeNode e key = find (\<lambda>a. fst a = key) (attributes e)"

definition getJSXAttribute :: "element \<Rightarrow> string \<Rightarrow> string option" where
  "getJSXAttribute e key =
     (case getJSXAttributeNode e key of
        Some (_, Literal v) \<Rightarrow> Some v
      | _ \<Rightarrow> None)"

definition removeJSXAttribute :: "element \<Rightarrow> string \<Rightarrow> element" where
  "removeJSXAttribute e key = e\<lparr>attributes := filter (\<lambda>a. fst a \<noteq> key) (attributes e)\<rparr>"

text \<open>A string that JavaScript takes for true: present and not empty.\<close>

definition truthy :: "string option \<Rightarrow> bool" where
  "truthy v = (case v of None \<Rightarrow> False | Some s \<Rightarrow> s \<noteq> [])"

text \<open>\<open>dstAttr.value = v\<close> on the first attribute of a name.\<close>

fun set_attr_value :: "string \<Rightarrow> attr_value \<Rightarrow> attr list \<Rightarrow> attr list" where
  "set_attr_value key v [] = []"
| "set_attr_value key v (a # as) =
     (if fst a = key then (key, v) # as else a # set_attr_value key v as)"

subsection \<open>Slots\<close>

text \<open>
  A slot is a \<open>:slot\<close> element with its parent. The dictionary of slots keeps the
  order in which its own keys were first written; \<open>Reflect.ownKeys\<close> lists the own
  keys that are array indices first, in ascending order, then the others in that order.
\<close>

type_synonym slot = "addr \<times> addr"

record slots =
  own_slots :: "(string \<times> slot) list"
  slots_proto :: "slot option"

definition no_slots :: slots where
  "no_slots = \<lparr>own_slots = [], slots_proto = None\<rparr>"

text \<open>
  \<open>slots[k]\<close>. A slot that is the prototype of the dictionary lends it the fields
  \<open>node\<close> and \<open>parent\<close>, which hold elements, not slots.
\<close>

definition slot_get :: "slots \<Rightarrow> string \<Rightarrow> slot property" where
  "slot_get d k =
     (if k = ''__proto__'' then
        (case slots_proto d of None \<Rightarrow> object_property k | Some v \<Rightarrow> Entry v)
      else case map_of (own_slots d) k of
        Some v \<Rightarrow> Entry v
      | None \<Rightarrow>
          (case slots_proto d of
             None \<Rightarrow> object_property k
           | Some v \<Rightarrow>
               if k = ''node'' \<or> k = ''parent'' then Foreign ''undefined''
               else object_property k))"

text \<open>\<open>slots[k] = v\<close>.\<close>

definition slot_set :: "string \<Rightarrow> slot \<Rightarrow> slots \<Rightarrow> slots" where
  "slot_set k v d =
     (if k = ''__proto__'' then d\<lparr>slots_proto := Some v\<rparr>
      else d\<lparr>own_slots := AList.update k v (own_slots d)\<rparr>)"

definition dq :: string where "dq = [CHR 0x22]"

definition nat_of_digits :: "string \<Rightarrow> nat" where
  "nat_of_digits ds = foldl (\<lambda>n c. 10 * n + (of_char c - 48)) 0 ds"

definition is_array_index :: "string \<Rightarrow> bool" where
  "is_array_index k =
     (k \<noteq> [] \<and> list_all (\<lambda>c. 48 \<le> (of_char c :: nat) \<and> (of_char c :: nat) \<le> 57) k
      \<and> (k = ''0'' \<or> hd k \<noteq> CHR ''0'') \<and> nat_of_digits k < 4294967295)"

definition ownKeys :: "(string \<times> 'v) list \<Rightarrow> string list" where
  "ownKeys d =
     sort_key nat_of_digits (filter is_array_index (map fst d))
     @ filter (\<lambda>k. \<not> is_array_index k) (map fst d)"

definition addDefaultSlot :: "addr \<Rightarrow> session \<Rightarrow> (slot \<times> session) option" where
  "addDefaultSlot node s =
     (case new_node (JSXElement \<lparr>tag = SLOT_TAG,
                                 attributes = [(SLOT_NAME_ATTR, Literal SLOT_DEFAULT_NAME)],
                                 selfClosing = False, closingTag = Some SLOT_TAG,
                                 children = []\<rparr>) s of
        (defaultSlot, s1) \<Rightarrow>
          map_option (\<lambda>s2. ((defaultSlot, node), s2))
            (update_element node (\<lambda>e. e\<lparr>children := children e @ [defaultSlot]\<rparr>) s1))"

text \<open>The visitor of \<open>collectSlots\<close> at an element \<open>node\<close> with its parent.\<close>

definition slot_visit :: "slots option \<Rightarrow> slots \<times> session \<Rightarrow> addr \<times> addr \<Rightarrow> slots \<times> session" where
  "slot_visit ignore acc np =
     (case acc of (ret, s) \<Rightarrow> case np of (node, parent) \<Rightarrow>
        (case elem_at (heap s) node of
           None \<Rightarrow> (ret, s)
         | Some e \<Rightarrow>
             if tag e = SLOT_TAG then
               (case getJSXAttribute e SLOT_NAME_ATTR of
                  None \<Rightarrow>
                    (ret, push_error (CodeError Error
                       (''missing slot '' @ dq @ ''name'' @ dq @ '' attribute'') (Some node)) s)
                | Some name \<Rightarrow>
                    if name = [] then
                      (ret, push_error (CodeError Error
                         (''missing slot '' @ dq @ ''name'' @ dq @ '' attribute'') (Some node)) s)
                    else if (case ignore of
                               None \<Rightarrow> False
                             | Some ig \<Rightarrow> (case slot_get ig name of
                                             Entry islot \<Rightarrow> node = fst islot
                                           | _ \<Rightarrow> False))
                    then (ret, s)
                    else (slot_set name (node, parent) ret, s))
             else (ret, s)))"

definition collectSlots :: "loader \<Rightarrow> addr \<Rightarrow> session \<Rightarrow> slots option \<Rightarrow> (slots \<times> session) option" where
  "collectSlots ldr node s ignore =
     (case walk (visitAfter ldr) (heap s) (nxt s) [] node of
        None \<Rightarrow> None
      | Some visited \<Rightarrow>
          (case foldl (slot_visit ignore) (no_slots, s) visited of
             (ret, s1) \<Rightarrow>
               if slot_get ret SLOT_DEFAULT_NAME = Absent \<and> ignore = None then
                 map_option (\<lambda>(slot, s2). (slot_set SLOT_DEFAULT_NAME slot ret, s2))
                   (addDefaultSlot node s1)
               else Some (ret, s1)))"

subsection \<open>Stamping a macro\<close>

definition merge_attribute :: "element \<Rightarrow> element \<Rightarrow> string \<Rightarrow> element" where
  "merge_attribute src dst key =
     (case getJSXAttributeNode src key of
        None \<Rightarrow> dst
      | Some srcAttr \<Rightarrow>
          (case getJSXAttributeNode dst key of
             Some dstAttr \<Rightarrow> dst\<lparr>attributes := set_attr_value key (snd srcAttr) (attributes dst)\<rparr>
           | None \<Rightarrow> dst\<lparr>attributes := attributes dst @ [srcAttr]\<rparr>))"

text \<open>The slot a child of the use-site goes to.\<close>

definition slotNameOf :: "heap \<Rightarrow> addr \<Rightarrow> string" where
  "slotNameOf h node =
     (case h node of
        Some (JSXElement e) \<Rightarrow>
          (if truthy (getJSXAttribute e SLOT_NAME_ATTR)
           then the (getJSXAttribute e SLOT_NAME_ATTR) else SLOT_DEFAULT_NAME)
      | _ \<Rightarrow> SLOT_DEFAULT_NAME)"

text \<open>
  One round of the routing loop: the child goes before its slot, or nowhere when the
  lookup finds nothing. When the lookup finds a value that is no slot, the source reads
  the field \<open>children\<close> of a parent that is undefined, and throws.
\<close>

definition routeChild :: "slots \<Rightarrow> addr \<Rightarrow> session \<Rightarrow> session option" where
  "routeChild sl node s =
     (case slot_get sl (slotNameOf (heap s) node) of
        Absent \<Rightarrow> Some s
      | Foreign v \<Rightarrow> None
      | Entry (slotNode, slotParent) \<Rightarrow>
          update_element slotParent
            (\<lambda>p. p\<lparr>children := splice (children p) (indexOf (children p) slotNode) 0 [node]\<rparr>) s)"

fun routeChildren :: "slots \<Rightarrow> addr list \<Rightarrow> session \<Rightarrow> session option" where
  "routeChildren sl [] s = Some s"
| "routeChildren sl (node # nodes) s =
     (case routeChild sl node s of None \<Rightarrow> None | Some s' \<Rightarrow> routeChildren sl nodes s')"

text \<open>One round of the final loop: the slot gives way to its own children.\<close>

definition replaceSlot :: "slots \<Rightarrow> string \<Rightarrow> session \<Rightarrow> session option" where
  "replaceSlot sl key s =
     (case slot_get sl key of
        Absent \<Rightarrow> None
      | Foreign v \<Rightarrow> None
      | Entry (slotNode, slotParent) \<Rightarrow>
          (case elem_at (heap s) slotNode of
             None \<Rightarrow> None
           | Some se \<Rightarrow>
               update_element slotParent
                 (\<lambda>p. p\<lparr>children :=
                    splice (children p) (indexOf (children p) slotNode) 1 (children se)\<rparr>) s))"

fun replaceSlots :: "slots \<Rightarrow> string list \<Rightarrow> session \<Rightarrow> session option" where
  "replaceSlots sl [] s = Some s"
| "replaceSlots sl (key # keys) s =
     (case replaceSlot sl key s of None \<Rightarrow> None | Some s' \<Rightarrow> replaceSlots sl keys s')"

text \<open>
  \<open>populateMacro\<close>: merge the attributes of the use-site \<open>src\<close> into \<open>dst\<close>, collect
  the slots of \<open>dst\<close>, route the children of \<open>src\<close>, and either return the slots or
  replace them. In the source \<open>dst\<close> is a fresh copy of the macro body, apart from
  \<open>src\<close>, so that the children of \<open>src\<close> stay as they are while the loop runs.
\<close>

definition populateMacro :: "loader \<Rightarrow> addr \<Rightarrow> addr \<Rightarrow> session \<Rightarrow> bool \<Rightarrow> (slots \<times> session) option" where
  "populateMacro ldr src dst s removeSlots =
     (case elem_at (heap s) src of
        None \<Rightarrow> None
      | Some se \<Rightarrow>
          (case update_element dst
                  (\<lambda>d. foldl (merge_attribute se) d (getJSXAttributeKeys se)) s of
             None \<Rightarrow> None
           | Some s1 \<Rightarrow>
               (case collectSlots ldr dst s1 None of
                  None \<Rightarrow> None
                | Some (sl, s2) \<Rightarrow>
                    (case routeChildren sl (children se) s2 of
                       None \<Rightarrow> None
                     | Some s3 \<Rightarrow>
                         if \<not> removeSlots then Some (sl, s3)
                         else map_option (\<lambda>s4. (no_slots, s4))
                                (replaceSlots sl (ownKeys (own_slots sl)) s3)))))"

text \<open>
  The loop of \<open>expandMacro\<close> after an inheritance expansion: a slot of the parent
  macro whose name is defined again goes away. Here too a value that is no slot has no
  parent, and the source throws.
\<close>

definition removeOldSlot :: "slots \<Rightarrow> string \<Rightarrow> session \<Rightarrow> session option" where
  "removeOldSlot oldSlots key s =
     (case slot_get oldSlots key of
        Absent \<Rightarrow> Some s
      | Foreign v \<Rightarrow> None
      | Entry (slotNode, slotParent) \<Rightarrow>
          update_element slotParent
            (\<lambda>p. p\<lparr>children := splice (children p) (indexOf (children p) slotNode) 1 []\<rparr>) s)"

fun removeOldSlots :: "slots \<Rightarrow> string list \<Rightarrow> session \<Rightarrow> session option" where
  "removeOldSlots oldSlots [] s = Some s"
| "removeOldSlots oldSlots (key # keys) s =
     (case removeOldSlot oldSlots key s of
        None \<Rightarrow> None
      | Some s' \<Rightarrow> removeOldSlots oldSlots keys s')"

text \<open>\<open>JSON.parse(JSON.stringify(node))\<close>: a deep copy made of fresh objects.\<close>

definition clone :: "addr \<Rightarrow> session \<Rightarrow> (addr \<times> session) option" where
  "clone a s =
     (case snapshot (heap s) (nxt s) [] a of
        None \<Rightarrow> None
      | Some t \<Rightarrow>
          (case alloc t (heap s) (nxt s) of
             (ret, h', n') \<Rightarrow> Some (ret, s\<lparr>heap := h', nxt := n'\<rparr>)))"

definition expandMacro ::
  "loader \<Rightarrow> addr \<Rightarrow> macro_def \<Rightarrow> session \<Rightarrow> bool \<Rightarrow> nat \<Rightarrow> (addr \<times> session) option" where
  "expandMacro ldr use macro s removeSlots nesting =
     (if nesting > MAX_NESTING then
        Some (use, push_error (CodeError Error
                (''too many nested macros '' @ dq @ mname macro @ dq) (Some use)) s)
      else
        case clone (mnode macro) s of
          None \<Rightarrow> None
        | Some (ret, s1) \<Rightarrow>
            (case populateMacro ldr use ret s1 removeSlots of
               None \<Rightarrow> None
             | Some (oldSlots, s2) \<Rightarrow>
                 if \<not> removeSlots then
                   (case collectSlots ldr ret s2 (Some oldSlots) of
                      None \<Rightarrow> None
                    | Some (newSlots, s3) \<Rightarrow>
                        map_option (\<lambda>s4. (ret, s4))
                          (removeOldSlots oldSlots (ownKeys (own_slots newSlots)) s3))
                 else Some (ret, s2)))"

subsection \<open>Directives\<close>

record directive =
  dname :: string
  dnode :: addr
  dparent :: addr

text \<open>
  \<open>/^([\-\w]+)(\:[\-\w]+)?$/.exec(tag)\<close>: the two groups, the second one absent when
  the tag has no base part.
\<close>

definition define_tag_exec :: "string \<Rightarrow> (string \<times> string option) option" where
  "define_tag_exec tg =
     (let name = takeWhile is_tag_char tg; rest = dropWhile is_tag_char tg
      in if name = [] then None
         else if rest = [] then Some (name, None)
         else if hd rest = CHR '':'' \<and> tl rest \<noteq> [] \<and> list_all is_tag_char (tl rest)
              then Some (name, Some rest)
         else None)"

definition collectMacro :: "loader \<Rightarrow> directive \<Rightarrow> session \<Rightarrow> session option" where
  "collectMacro ldr d s =
     (case elem_at (heap s) (dnode d) of
        None \<Rightarrow> None
      | Some e \<Rightarrow>
          if \<not> truthy (getJSXAttribute e DEFINE_TAG_ATTR) then
            Some (push_error (CodeError Warning
                    (''bad or missing '' @ DEFINE_TAG_ATTR @ '' attribute'') (Some (dnode d))) s)
          else
            let tg = the (getJSXAttribute e DEFINE_TAG_ATTR) in
            (case define_tag_exec tg of
               None \<Rightarrow>
                 Some (push_error (CodeError Warning
                         (''invalid tag name '' @ dq @ tg @ '' (does it include a dash?)'' @ dq)
                         (Some (dnode d))) s)
             | Some (name, res2) \<Rightarrow>
                 let base = (case res2 of Some b \<Rightarrow> tl b | None \<Rightarrow> ''div'');
                     from = (if indexOf base (CHR ''-'') > 0 then macro_get s base else Absent)
                 in
                 (case update_element (dnode d)
                         (\<lambda>e. (removeJSXAttribute e DEFINE_TAG_ATTR)
                                \<lparr>tag := base, selfClosing := False, closingTag := Some base\<rparr>) s of
                    None \<Rightarrow> None
                  | Some s1 \<Rightarrow>
                      (case from of
                         Absent \<Rightarrow>
                           Some (macro_set name (MacroDefinition name (dnode d) base None) s1)
                       | Foreign v \<Rightarrow> None
                       | Entry f \<Rightarrow>
                           (case expandMacro ldr (dnode d) f s1 False 0 of
                              None \<Rightarrow> None
                            | Some (node, s2) \<Rightarrow>
                                Some (macro_set name (MacroDefinition name node base (Some f)) s2))))))"

text \<open>
  \<open>applyIncludedAttributes\<close>: the attributes of the included root whose names the
  parent of the directive does not have are pushed onto the parent. The names of the
  parent are read once, before the loop.
\<close>

definition included_attributes :: "element \<Rightarrow> element \<Rightarrow> attr list" where
  "included_attributes p r =
     concat (map (\<lambda>key. if key \<in> set (getJSXAttributeKeys p) then []
                         else (case getJSXAttributeNode r key of
                                 None \<Rightarrow> [] | Some a \<Rightarrow> [a]))
                 (getJSXAttributeKeys r))"

definition applyIncludedAttributes :: "directive \<Rightarrow> addr \<Rightarrow> session \<Rightarrow> session option" where
  "applyIncludedAttributes d rootElement s =
     (case elem_at (heap s) rootElement of
        None \<Rightarrow> None
      | Some r \<Rightarrow>
          update_element (dparent d)
            (\<lambda>p. p\<lparr>attributes := attributes p @ included_attributes p r\<rparr>) s)"

subsection \<open>Inclusion\<close>

text \<open>The visitor of \<open>processDirectives\<close>: the elements whose name starts with a colon.\<close>

definition collect_directives :: "heap \<Rightarrow> (addr \<times> addr) list \<Rightarrow> directive list" where
  "collect_directives h visited =
     concat (map (\<lambda>(node, parent).
                    case elem_at h node of
                      None \<Rightarrow> []
                    | Some e \<Rightarrow>
                        if startsWith (tag e) TAGS_PREFIX
                        then [\<lparr>dname = tag e, dnode = node, dparent = parent\<rparr>] else [])
                 visited)"

text \<open>\<open>i >= 0 && d.parent.children.splice(i, 1)\<close>.\<close>

definition removeDirective :: "directive \<Rightarrow> int \<Rightarrow> session \<Rightarrow> session option" where
  "removeDirective d i s =
     (if i \<ge> 0 then update_element (dparent d) (\<lambda>p. p\<lparr>children := splice (children p) i 1 []\<rparr>) s
      else Some s)"

text \<open>
  The children of the included root to splice in: without one leading and one trailing
  text of white space.
\<close>

definition blank_text :: "heap \<Rightarrow> addr \<Rightarrow> bool" where
  "blank_text h a = (case h a of Some (JSXText v) \<Rightarrow> is_blank v | _ \<Rightarrow> False)"

definition trimmed_children :: "heap \<Rightarrow> addr list \<Rightarrow> addr list" where
  "trimmed_children h cs =
     (let nn = (if cs \<noteq> [] \<and> blank_text h (hd cs) then tl cs else cs)
      in if nn \<noteq> [] \<and> blank_text h (last nn) then butlast nn else nn)"

text \<open>The part of \<open>processInclude\<close> that follows a successful \<open>parse\<close>.\<close>

definition spliceIncluded :: "directive \<Rightarrow> int \<Rightarrow> addr \<Rightarrow> session \<Rightarrow> session option" where
  "spliceIncluded d i rootElement s =
     (case applyIncludedAttributes d rootElement s of
        None \<Rightarrow> None
      | Some s1 \<Rightarrow>
          (case elem_at (heap s1) rootElement of
             None \<Rightarrow> None
           | Some r \<Rightarrow>
               update_element (dparent d)
                 (\<lambda>p. p\<lparr>children :=
                    splice (children p) i 0 (trimmed_children (heap s1) (children r))\<rparr>) s1))"

text \<open>
  \<open>parse\<close>, \<open>processDirectives\<close> with its loop, and \<open>processInclude\<close> call each
  other. \<open>parse\<close> returns the root element of the program, or nothing.
\<close>

function (sequential)
  parse :: "loader \<Rightarrow> string \<Rightarrow> string \<Rightarrow> session \<Rightarrow> nat \<Rightarrow> bool \<Rightarrow> addr option
            \<Rightarrow> (addr option \<times> session) option"
  and processDirectives :: "loader \<Rightarrow> addr \<Rightarrow> string \<Rightarrow> session \<Rightarrow> nat \<Rightarrow> session option"
  and directivesLoop :: "loader \<Rightarrow> directive list \<Rightarrow> string \<Rightarrow> session \<Rightarrow> nat \<Rightarrow> session option"
  and processInclude :: "loader \<Rightarrow> directive \<Rightarrow> int \<Rightarrow> string \<Rightarrow> session \<Rightarrow> nat \<Rightarrow> session option"
where
  "parse ldr fname currDir s nesting once from =
     (if nesting \<ge> MAX_NESTING then
        Some (None, push_error (CodeError Error ''too many nested inclusions'' from) s)
      else
        let currDir' = (if startsWith fname ''/'' then [] else currDir);
            pname = path_normalize (path_join [rootPath ldr, currDir', fname])
        in
        if \<not> startsWith pname (rootPath ldr) then
          Some (None, push_error (CodeError Error
                  (''forbidden pathname '' @ dq @ path_relative (rootPath ldr) pname @ dq) from) s)
        else
          let relPath = drop (length (rootPath ldr)) pname in
          if \<not> indexOf (files s) relPath < 0 \<and> once then Some (None, s)
          else
            let s1 = (if indexOf (files s) relPath < 0
                      then s\<lparr>files := files s @ [relPath]\<rparr> else s)
            in
            (case readFile ldr pname of
               None \<Rightarrow>
                 Some (None, push_error (CodeError Error
                         (''failed to read '' @ dq @ relPath @ dq) from) s1)
             | Some text \<Rightarrow>
                 (case parser ldr text relPath of
                    Inl err \<Rightarrow>
                      Some (None, push_error (CodeError Error
                              (err @ '' in '' @ dq @ relPath @ dq) from) s1)
                  | Inr body \<Rightarrow>
                      (case body of
                         ExpressionStatement (Element t ats sc cl cs) # _ \<Rightarrow>
                           (case alloc (Element t ats sc cl cs) (heap s1) (nxt s1) of
                              (program, h', n') \<Rightarrow>
                                (case processDirectives ldr program (path_dirname relPath)
                                        (s1\<lparr>heap := h', nxt := n'\<rparr>) nesting of
                                   None \<Rightarrow> None
                                 | Some s2 \<Rightarrow> Some (Some program, s2)))
                       | _ \<Rightarrow>
                           Some (None, push_error (CodeError Error
                                   (''HTML tag expected '' @ dq @ relPath @ dq) None) s1)))))"
| "processDirectives ldr program currDir s nesting =
     (case walk (visitAfter ldr) (heap s) (nxt s) [] program of
        None \<Rightarrow> None
      | Some visited \<Rightarrow>
          directivesLoop ldr (collect_directives (heap s) visited) currDir s nesting)"
| "directivesLoop ldr [] currDir s nesting = Some s"
| "directivesLoop ldr (d # ds) currDir s nesting =
     (case elem_at (heap s) (dparent d) of
        None \<Rightarrow> None
      | Some p \<Rightarrow>
          let i = indexOf (children p) (dnode d) in
          (case (if dname d = INCLUDE_TAG \<or> dname d = IMPORT_TAG then
                   (case removeDirective d i s of
                      None \<Rightarrow> None
                    | Some s1 \<Rightarrow> processInclude ldr d i currDir s1 nesting)
                 else if dname d = DEFINE_TAG then
                   (case removeDirective d i s of
                      None \<Rightarrow> None
                    | Some s1 \<Rightarrow> collectMacro ldr d s1)
                 else if dname d = SLOT_TAG then Some s
                 else
                   (case removeDirective d i s of
                      None \<Rightarrow> None
                    | Some s1 \<Rightarrow>
                        Some (push_error (CodeError Warning
                                (''unknown directive '' @ dname d) (Some (dnode d))) s1))) of
             None \<Rightarrow> None
           | Some s' \<Rightarrow> directivesLoop ldr ds currDir s' nesting))"
| "processInclude ldr d i currDir s nesting =
     (case elem_at (heap s) (dnode d) of
        None \<Rightarrow> None
      | Some e \<Rightarrow>
          (case getJSXAttribute e INCLUDE_SRC_ATTR of
             None \<Rightarrow>
               Some (push_error (CodeError Error
                       (''missing '' @ INCLUDE_SRC_ATTR @ '' attribute'') (Some (dnode d))) s)
           | Some src \<Rightarrow>
               if is_blank src then
                 Some (push_error (CodeError Error
                         (''missing '' @ INCLUDE_SRC_ATTR @ '' attribute'') (Some (dnode d))) s)
               else
                 (case parse ldr src currDir s (nesting + 1) (dname d = IMPORT_TAG)
                         (Some (dnode d)) of
                    None \<Rightarrow> None
                  | Some (None, s1) \<Rightarrow> Some s1
                  | Some (Some program, s1) \<Rightarrow> spliceIncluded d i program s1)))"
  by pat_completeness auto

text \<open>
  Termination: an inclusion raises the nesting, which \<open>parse\<close> bounds; the loop runs
  through a list.
\<close>

termination parse
  apply (relation "inv_image (less_than <*lex*> less_than <*lex*> less_than)
     (\<lambda>x. case x of
        Inl (Inl (ldr, fname, currDir, s, nesting, once, from)) \<Rightarrow>
          (2 * (100 - nesting), 0::nat, 0::nat)
      | Inl (Inr (ldr, program, currDir, s, nesting)) \<Rightarrow> (2 * (100 - nesting) - 1, 3, 0)
      | Inr (Inl (ldr, ds, currDir, s, nesting)) \<Rightarrow> (2 * (100 - nesting) - 1, 2, length ds)
      | Inr (Inr (ldr, d, i, currDir, s, nesting)) \<Rightarrow> (2 * (100 - nesting) - 1, 1, 0))")
      apply (intro wf_inv_image wf_lex_prod wf_less_than)
     apply (simp_all add: MAX_NESTING_def)
  apply arith
  done

subsection \<open>Macro expansion\<close>

record usage =
  use :: addr
  res :: addr
  parent :: addr

text \<open>
  The visitor of \<open>expandMacros\<close>: an element whose name is a registered macro is
  stamped at once, and the result is noted for the second loop. The stamping writes to
  the fresh copy only, so the tree under the walk is the one the walk started with.
  When the lookup of the name finds a value that is no descriptor, \<open>expandMacro\<close> runs
  on that value: beyond the depth bound it records the diagnostic, with the \<open>name\<close> of
  the value, and returns the use-site; otherwise it copies a node that is undefined,
  and \<open>JSON.parse\<close> throws.
\<close>

fun collectUsages ::
  "loader \<Rightarrow> nat \<Rightarrow> (addr \<times> addr) list \<Rightarrow> usage list \<Rightarrow> session \<Rightarrow> (usage list \<times> session) option" where
  "collectUsages ldr nesting [] ee s = Some (ee, s)"
| "collectUsages ldr nesting ((node, par) # visited) ee s =
     (case elem_at (heap s) node of
        None \<Rightarrow> None
      | Some e \<Rightarrow>
          (case macro_get s (tag e) of
             Absent \<Rightarrow> collectUsages ldr nesting visited ee s
           | Foreign v \<Rightarrow>
               if nesting > MAX_NESTING then
                 collectUsages ldr nesting visited
                   (ee @ [\<lparr>use = node, res = node, parent = par\<rparr>])
                   (push_error (CodeError Error
                      (''too many nested macros '' @ dq @ v @ dq) (Some node)) s)
               else None
           | Entry macro \<Rightarrow>
               (case expandMacro ldr node macro s True nesting of
                  None \<Rightarrow> None
                | Some (r, s1) \<Rightarrow>
                    collectUsages ldr nesting visited
                      (ee @ [\<lparr>use = node, res = r, parent = par\<rparr>]) s1)))"

text \<open>\<open>e.parent.children.splice(i, 1, e.res)\<close> with \<open>i\<close> the index of \<open>e.use\<close>.\<close>

definition replaceUsage :: "usage \<Rightarrow> session \<Rightarrow> session option" where
  "replaceUsage e s =
     update_element (parent e)
       (\<lambda>p. p\<lparr>children := splice (children p) (indexOf (children p) (use e)) 1 [res e]\<rparr>) s"

text \<open>A loop whose body may fail or not return.\<close>

fun for_each :: "('a \<Rightarrow> 's \<Rightarrow> 's option) \<Rightarrow> 'a list \<Rightarrow> 's \<Rightarrow> 's option" where
  "for_each body [] s = Some s"
| "for_each body (x # xs) s = Option.bind (body x s) (for_each body xs)"

lemma for_each_mono [partial_function_mono]:
  assumes "\<And>x s. mono_option (\<lambda>f. body f x s)"
  shows "mono_option (\<lambda>f. for_each (body f) xs s)"
proof (induction xs arbitrary: s)
  case Nil
  show ?case by (simp add: option.const_mono)
next
  case (Cons x xs)
  show ?case
    unfolding for_each.simps
    by (rule bind_mono) (rule assms, rule Cons.IH)
qed

text \<open>
  \<open>expandMacros\<close>: the recursion follows the stamped trees and the nesting counter;
  nothing in the function bounds it on a cyclic structure, so not returning is the
  value \<open>None\<close>.
\<close>

partial_function (option) expandMacros :: "loader \<Rightarrow> addr \<Rightarrow> session \<Rightarrow> nat \<Rightarrow> session option" where
  "expandMacros ldr root s nesting =
     Option.bind (walk (visitAfter ldr) (heap s) (nxt s) [] root)
       (\<lambda>visited. Option.bind (collectUsages ldr nesting visited [] s)
          (\<lambda>es. for_each
                   (\<lambda>e st. Option.bind (replaceUsage e st)
                              (\<lambda>st'. expandMacros ldr (res e) st' (nesting + 1)))
                   (fst es) (snd es)))"

declare expandMacros.simps [code]

definition new_session :: session where
  "new_session = \<lparr>heap = Map.empty, nxt = 0, files = [], errors = [], macros = Map.empty,
                    macros_proto = None\<rparr>"

text \<open>\<open>load\<close> returns the tree, if there is one, and the session.\<close>

definition load :: "loader \<Rightarrow> string \<Rightarrow> (addr option \<times> session) option" where
  "load ldr fname =
     (case parse ldr fname ''.'' new_session 0 False None of
        None \<Rightarrow> None
      | Some (None, s) \<Rightarrow> Some (None, s)
      | Some (Some ast, s) \<Rightarrow> map_option (\<lambda>s'. (Some ast, s')) (expandMacros ldr ast s 0))"

section \<open>Example pages\<close>

text \<open>
  A file system of pages for the examples: the text of a file is its name, and the
  parser maps the name to the tree of the page.
\<close>

definition pages_loader :: "string \<Rightarrow> (string \<times> jsx) list \<Rightarrow> bool \<Rightarrow> loader" where
  "pages_loader root pages after =
     \<lparr>rootPath = root,
      readFile = (\<lambda>p. if p \<in> set (map (\<lambda>page. root @ fst page) pages)
                       then Some (drop (length root) p) else None),
      parser = (\<lambda>text rel. case map_of pages text of
                               Some t \<Rightarrow> Inr [ExpressionStatement t]
                             | None \<Rightarrow> Inl ''SyntaxError''),
      visitAfter = after\<rparr>"

text \<open>What a load returns: the tree written out, the files and the diagnostics.\<close>

definition outcome ::
  "(addr option \<times> session) option \<Rightarrow> (jsx option \<times> string list \<times> code_error list) option" where
  "outcome r =
     map_option (\<lambda>(ast, s). (case ast of None \<Rightarrow> None
                                | Some a \<Rightarrow> snapshot (heap s) (nxt s) [] a,
                              files s, errors s)) r"

definition elem :: "string \<Rightarrow> attr list \<Rightarrow> jsx list \<Rightarrow> jsx" where
  "elem t ats cs = Element t ats False (Some t) cs"

definition elem0 :: "string \<Rightarrow> attr list \<Rightarrow> jsx" where
  "elem0 t ats = Element t ats True None []"

text \<open>A path lies within the root when it is the root or a path below it.\<close>

definition within_root :: "string \<Rightarrow> string \<Rightarrow> bool" where
  "within_root root p = (p = root \<or> startsWith p (root @ ''/''))"

text \<open>
  A document root \<open>/www\<close> next to a directory \<open>/www2\<close>, which holds a file.
\<close>

definition sibling_loader :: loader where
  "sibling_loader =
     \<lparr>rootPath = ''/www'',
      readFile = (\<lambda>p. if p = ''/www2/secret'' then Some ''top secret'' else None),
      parser = (\<lambda>text rel. Inr [ExpressionStatement (elem ''html'' [] [Text text])]),
      visitAfter = True\<rparr>"

text \<open>A page with a use of the macro \<open>a-b\<close>, as a session holds it.\<close>

definition use_site_session :: session where
  "use_site_session =
     (case alloc (elem ''html'' [] [elem0 ''a-b'' []]) Map.empty 0 of
        (a, h, n) \<Rightarrow> new_session\<lparr>heap := h, nxt := n\<rparr>)"

text \<open>A page that names the file \<open>b.html\<close> in two directives of the same kind.\<close>

definition twice_page :: "string \<Rightarrow> bool \<Rightarrow> loader" where
  "twice_page directive after = pages_loader ''/www''
     [(''/a.html'', elem ''html'' []
        [elem0 directive [(''src'', Literal ''b.html'')],
         elem0 directive [(''src'', Literal ''b.html'')]]),
      (''/b.html'', elem ''div'' [] [Text ''hello''])] after"

text \<open>A session that has visited \<open>b.html\<close>.\<close>

definition visited_session :: session where
  "visited_session = new_session\<lparr>files := [''/a.html'', ''/b.html'']\<rparr>"

text \<open>A page that defines a macro under a name without a dash, and uses it.\<close>

definition dashless_page :: "bool \<Rightarrow> loader" where
  "dashless_page after = pages_loader ''/www''
     [(''/a.html'', elem ''html'' []
        [elem '':define'' [(''tag'', Literal ''foo'')] [Text ''body''],
         elem ''foo'' [] [Text ''B'']])] after"



text \<open>A page that includes, imports and includes again the same file.\<close>

definition mix_page :: "bool \<Rightarrow> loader" where
  "mix_page after = pages_loader ''/www''
     [(''/a.html'', elem ''html'' []
        [elem0 '':include'' [(''src'', Literal ''b.html'')],
         elem0 '':import'' [(''src'', Literal ''./b.html'')],
         elem0 '':include'' [(''src'', Literal ''/b.html'')]]),
      (''/b.html'', elem ''div'' [] [Text ''hello''])] after"



text \<open>
  A chain of 101 files below the root \<open>/www\<close>: the file number \<open>k\<close> has the name
  \<open>a\<close> repeated \<open>k + 1\<close> times, and each of the first hundred includes the next.
\<close>

definition chain_name :: "nat \<Rightarrow> string" where
  "chain_name k = replicate (Suc k) (CHR ''a'')"

definition chain_loader :: "bool \<Rightarrow> loader" where
  "chain_loader after =
     \<lparr>rootPath = ''/www'',
      readFile = (\<lambda>p. let name = drop 5 p in
                    if take 5 p = ''/www/'' \<and> name \<noteq> [] \<and> length name \<le> 101
                       \<and> list_all (\<lambda>c. c = CHR ''a'') name
                    then Some name else None),
      parser = (\<lambda>text rel. Inr [ExpressionStatement
                  (elem ''html'' []
                     (if length text < 101
                      then [elem0 '':include'' [(''src'', Literal (text @ ''a''))]]
                      else []))]),
      visitAfter = after\<rparr>"

text \<open>
  A macro \<open>my-card\<close> with the slots \<open>header\<close> and \<open>default\<close>, used with a child
  whose \<open>name\<close> attribute is empty.
\<close>

definition empty_name_page :: "bool \<Rightarrow> loader" where
  "empty_name_page after = pages_loader ''/www''
     [(''/a.html'', elem ''html'' []
        [elem '':define'' [(''tag'', Literal ''my-card'')]
           [elem0 '':slot'' [(''name'', Literal ''header'')],
            elem0 '':slot'' [(''name'', Literal ''default'')]],
         elem ''my-card'' [] [elem ''span'' [(''name'', Literal [])] [Text ''E'']]])] after"

text \<open>
  A copy of a macro body at address 0, with its slots at 1 and 2, and a use-site at
  address 3 with four children: two for the slot \<open>header\<close>, a text, and one for a
  slot that the body does not have.
\<close>

definition routing_session :: session where
  "routing_session =
     (case allocs [elem ''div'' [(''class'', Literal ''card'')]
                     [elem0 '':slot'' [(''name'', Literal ''header'')],
                      elem0 '':slot'' [(''name'', Literal ''default'')]],
                   elem ''my-card'' []
                     [elem ''span'' [(''name'', Literal ''header'')] [Text ''H''],
                      Text ''B'',
                      elem ''b'' [(''name'', Literal ''header'')] [Text ''I''],
                      elem ''em'' [(''name'', Literal ''footer'')] [Text ''X'']]]
             Map.empty 0 of
        (as, h, n) \<Rightarrow> new_session\<lparr>heap := h, nxt := n\<rparr>)"

definition routing_slots :: slots where
  "routing_slots = \<lparr>own_slots = [(''header'', (1, 0)), (''default'', (2, 0))], slots_proto = None\<rparr>"

text \<open>
  A page with a \<open>:slot\<close> element outside any macro body, and a page whose root
  element has the name of a directive.
\<close>

definition slot_page :: "bool \<Rightarrow> loader" where
  "slot_page after = pages_loader ''/www''
     [(''/a.html'', elem ''html'' [] [elem0 '':slot'' [(''name'', Literal ''a'')]]),
      (''/b.html'', elem0 '':include'' [(''src'', Literal ''a.html'')])] after"

text \<open>The tag names of a tree that begin with the reserved prefix.\<close>

fun directive_tags :: "jsx \<Rightarrow> string list" where
  "directive_tags (Element t ats sc cl cs) =
     (if startsWith t TAGS_PREFIX then [t] else []) @ concat (map directive_tags cs)"
| "directive_tags (Text v) = []"
| "directive_tags (ExpressionContainer v) = []"

text \<open>
  A session with an element at address 0 whose children are a text, an unknown
  directive, and a slot that holds two children.
\<close>

definition directive_session :: session where
  "directive_session =
     (case alloc (elem ''div'' []
                    [Text ''t'',
                     elem0 '':foo'' [],
                     elem '':slot'' [(''name'', Literal ''default'')] [Text ''u'', Text ''v'']])
             Map.empty 0 of
        (a, h, n) \<Rightarrow> new_session\<lparr>heap := h, nxt := n\<rparr>)"

text \<open>
  A page that imports a library with the macro \<open>my-card\<close> and uses the macro with a
  child for each of its two slots.
\<close>

definition card_page :: "bool \<Rightarrow> loader" where
  "card_page after = pages_loader ''/www''
     [(''/a.html'', elem ''html'' []
        [elem0 '':import'' [(''src'', Literal ''lib.html'')],
         elem ''my-card'' [(''id'', Literal ''c'')]
           [elem ''span'' [(''name'', Literal ''header'')] [Text ''H''], Text ''B'']]),
      (''/lib.html'', elem ''lib'' []
        [elem '':define'' [(''tag'', Literal ''my-card'')]
           [elem ''div'' [(''class'', Literal ''card'')]
              [elem0 '':slot'' [(''name'', Literal ''header'')],
               elem0 '':slot'' [(''name'', Literal ''default'')]]]])] after"

section \<open>Properties\<close>

subsection \<open>The guards of \<open>parse\<close>\<close>

lemma parse_forbidden:
  assumes "nesting < MAX_NESTING"
    and "pname = path_normalize (path_join [rootPath ldr,
                   if startsWith fname ''/'' then [] else currDir, fname])"
    and "\<not> startsWith pname (rootPath ldr)"
  shows "parse ldr fname currDir s nesting once from =
           Some (None, push_error (CodeError Error
                   (''forbidden pathname '' @ dq @ path_relative (rootPath ldr) pname @ dq)
                   from) s)"
  using assms by (simp add: Let_def)

lemma load_forbidden_example:
  "outcome (load sibling_loader ''../etc/passwd'')
     = Some (None, [], [CodeError Error (''forbidden pathname '' @ dq @ ''../etc/passwd'' @ dq) None])"
  by code_simp

text \<open>
  C1. Every entry of \<open>files\<close> should denote a path within the document root. The
  guard of \<open>parse\<close> compares strings: with the root \<open>/www\<close>, the request
  \<open>../www2/secret\<close> resolves to \<open>/www2/secret\<close>, which starts with the root's name
  and is not within the root. The load reads the file, returns its tree without a
  diagnostic, and records the entry \<open>2/secret\<close>.
\<close>

theorem C1_sibling_directory_escapes_root:
  "outcome (load sibling_loader ''../www2/secret'')
     = Some (Some (elem ''html'' [] [Text ''top secret'']), [''2/secret''], [])
   \<and> path_normalize (path_join [rootPath sibling_loader, ''.'', ''../www2/secret''])
       = ''/www2/secret''
   \<and> \<not> within_root (rootPath sibling_loader) ''/www2/secret''"
  by code_simp

subsection \<open>Arrays and the walk\<close>

lemma indexOf_ge: "- 1 \<le> indexOf xs x"
  by (induction xs) (auto simp: Let_def)

lemma indexOf_neg_iff: "indexOf xs x < 0 \<longleftrightarrow> x \<notin> set xs"
proof (induction xs)
  case Nil
  show ?case by simp
next
  case (Cons y ys)
  with indexOf_ge[of ys x] show ?case by (auto simp: Let_def)
qed

lemma indexOf_notin: "x \<notin> set xs \<Longrightarrow> indexOf xs x = - 1"
  by (induction xs) (auto simp: Let_def)

lemma indexOf_takeWhile:
  "x \<in> set xs \<Longrightarrow> indexOf xs x = int (length (takeWhile (\<lambda>y. y \<noteq> x) xs))"
  by (induction xs) (auto simp: Let_def indexOf_neg_iff)

lemma splice_nat:
  "k \<le> length xs \<Longrightarrow> splice xs (int k) d ys = take k xs @ ys @ drop (k + d) xs"
  by (simp add: splice_def Let_def min_def)

lemma splice_at_indexOf:
  assumes "x \<in> set xs"
  shows "splice xs (indexOf xs x) d ys
           = takeWhile (\<lambda>y. y \<noteq> x) xs @ ys @ drop d (dropWhile (\<lambda>y. y \<noteq> x) xs)"
proof -
  let ?k = "length (takeWhile (\<lambda>y. y \<noteq> x) xs)"
  have k: "?k \<le> length xs" by (rule length_takeWhile_le)
  have t: "take ?k xs = takeWhile (\<lambda>y. y \<noteq> x) xs"
    by (metis takeWhile_eq_take)
  have d: "drop ?k xs = dropWhile (\<lambda>y. y \<noteq> x) xs"
    by (metis dropWhile_eq_drop)
  have "drop (?k + d) xs = drop d (drop ?k xs)" by (simp add: add.commute)
  with t d show ?thesis
    using splice_nat[OF k, of d ys] indexOf_takeWhile[OF assms] by simp
qed

lemma dropWhile_hd: "x \<in> set xs \<Longrightarrow> dropWhile (\<lambda>y. y \<noteq> x) xs = x # tl (dropWhile (\<lambda>y. y \<noteq> x) xs)"
  by (induction xs) auto

lemma splice_replace_self:
  assumes "x \<in> set xs"
  shows "splice xs (indexOf xs x) 1 [x] = xs"
proof -
  have "drop 1 (dropWhile (\<lambda>y. y \<noteq> x) xs) = tl (dropWhile (\<lambda>y. y \<noteq> x) xs)"
    by (simp add: drop_Suc)
  then have "splice xs (indexOf xs x) 1 [x]
      = takeWhile (\<lambda>y. y \<noteq> x) xs @ x # tl (dropWhile (\<lambda>y. y \<noteq> x) xs)"
    using splice_at_indexOf[OF assms, of 1 "[x]"] by simp
  also have "\<dots> = takeWhile (\<lambda>y. y \<noteq> x) xs @ dropWhile (\<lambda>y. y \<noteq> x) xs"
    using dropWhile_hd[OF assms] by simp
  finally show ?thesis by simp
qed

lemma those_Some_map: "those xs = Some ys \<Longrightarrow> xs = map Some ys"
  by (induction xs arbitrary: ys) (auto split: option.splits)

lemma walk_child:
  assumes "walk after h n anc a = Some visited"
    and "(x, p) \<in> set visited"
    and "anc = [] \<or> (\<exists>e. elem_at h (hd anc) = Some e \<and> a \<in> set (children e))"
  shows "\<exists>e. elem_at h p = Some e \<and> x \<in> set (children e)"
  using assms
proof (induction after h n anc a arbitrary: visited rule: walk.induct)
  case (1 after h n anc a)
  from "1.prems"(1) have guard: "a \<notin> set anc" "\<not> n \<le> a"
    by (auto split: if_splits)
  from "1.prems"(1) guard obtain nd where nd: "h a = Some nd"
    by (auto split: option.splits)
  show ?case
  proof (cases nd)
    case (JSXElement e)
    from "1.prems"(1) guard nd JSXElement obtain below where
      below: "those (map (walk after h n (a # anc)) (children e)) = Some below"
      and vis: "visited = (if after then concat below @ (case anc of [] \<Rightarrow> [] | q # _ \<Rightarrow> [(a, q)])
                  else (case anc of [] \<Rightarrow> [] | q # _ \<Rightarrow> [(a, q)]) @ concat below)"
      by (auto simp: Let_def split: option.splits)
    have ea: "elem_at h a = Some e" using nd JSXElement by (simp add: elem_at_def)
    from vis "1.prems"(2) consider
      (self) "(x, p) \<in> set (case anc of [] \<Rightarrow> [] | q # _ \<Rightarrow> [(a, q)])"
      | (below) "(x, p) \<in> set (concat below)"
      by (auto simp: Let_def split: if_splits)
    then show ?thesis
    proof cases
      case self
      then obtain rest where "anc = p # rest" "x = a"
        by (auto split: list.splits)
      with "1.prems"(3) show ?thesis by auto
    next
      case below
      then obtain vs where vs: "vs \<in> set below" "(x, p) \<in> set vs" by auto
      from those_Some_map[OF \<open>those _ = Some below\<close>]
      have "map (walk after h n (a # anc)) (children e) = map Some below" .
      then have "Some vs \<in> set (map (walk after h n (a # anc)) (children e))"
        using vs(1) by simp
      then obtain c where c: "c \<in> set (children e)" "walk after h n (a # anc) c = Some vs"
        by auto
      show ?thesis
        using "1.IH"[OF _ nd JSXElement c(1) c(2) vs(2)] guard ea c(1) by auto
    qed
  next
    case (JSXText t)
    with "1.prems"(1,2) guard nd show ?thesis by auto
  next
    case (JSXExpression t)
    with "1.prems"(1,2) guard nd show ?thesis by auto
  qed
qed

subsection \<open>Macro expansion beyond the depth bound\<close>

lemma update_element_same:
  "elem_at (heap s) a = Some e \<Longrightarrow> f e = e \<Longrightarrow> update_element a f s = Some s"
  by (auto simp: update_element_def elem_at_def fun_upd_idem split: option.splits node.splits)

text \<open>
  C7. A macro expansion entered with a nesting above \<open>MAX_NESTING\<close> records the
  diagnostic \<open>too many nested macros "<name>"\<close> and returns the use-site itself; the
  store is as before. \<open>expandMacros\<close> then splices the use-site in at its own place,
  which changes nothing in any session with that store: the use-site stays in the
  tree, unpopulated.
\<close>

theorem C7_nesting_overflow_leaves_use_site:
  assumes "MAX_NESTING < nesting"
    and "walk (visitAfter ldr) (heap s) (nxt s) [] root = Some visited"
    and "(node, par) \<in> set visited"
  shows "\<exists>s'. expandMacro ldr node macro s removeSlots nesting = Some (node, s')
           \<and> s' = push_error (CodeError Error
                     (''too many nested macros '' @ dq @ mname macro @ dq) (Some node)) s
           \<and> heap s' = heap s
           \<and> (\<forall>t. heap t = heap s \<longrightarrow>
                 replaceUsage \<lparr>use = node, res = node, parent = par\<rparr> t = Some t)"
proof -
  let ?s' = "push_error (CodeError Error
               (''too many nested macros '' @ dq @ mname macro @ dq) (Some node)) s"
  from walk_child[OF assms(2,3)] obtain e where
    e: "elem_at (heap s) par = Some e" "node \<in> set (children e)" by auto
  have h: "heap ?s' = heap s" by (simp add: push_error_def)
  have "e\<lparr>children := splice (children e) (indexOf (children e) node) 1 [node]\<rparr> = e"
    using splice_replace_self[OF e(2)] by simp
  then have "replaceUsage \<lparr>use = node, res = node, parent = par\<rparr> t = Some t"
    if "heap t = heap s" for t
    unfolding replaceUsage_def using e(1) that
    by (intro update_element_same[where e = e]) simp_all
  moreover have "expandMacro ldr node macro s removeSlots nesting = Some (node, ?s')"
    using assms(1) by (simp add: expandMacro_def)
  ultimately show ?thesis using h by blast
qed


theorem C7_witness:
  "MAX_NESTING < 101
   \<and> walk True (heap use_site_session) (nxt use_site_session) [] 0 = Some [(1, 0)]
   \<and> (\<exists>s'. expandMacro (pages_loader ''/www'' [] True) 1
               (MacroDefinition ''a-b'' 1 ''div'' None) use_site_session True 101 = Some (1, s')
          \<and> s' = push_error (CodeError Error
                    (''too many nested macros '' @ dq @ ''a-b'' @ dq) (Some 1)) use_site_session
          \<and> heap s' = heap use_site_session
          \<and> replaceUsage \<lparr>use = 1, res = 1, parent = 0\<rparr> s' = Some s')"
proof -
  have n: "MAX_NESTING < 101" by (simp add: MAX_NESTING_def)
  have w: "walk True (heap use_site_session) (nxt use_site_session) [] 0 = Some [(1, 0)]"
    by code_simp
  then have w': "walk (visitAfter (pages_loader ''/www'' [] True)) (heap use_site_session)
                   (nxt use_site_session) [] 0 = Some [(1, 0)]"
    by (simp add: pages_loader_def)
  have m: "(1, 0) \<in> set [(1::nat, 0::nat)]" by simp
  from C7_nesting_overflow_leaves_use_site[OF n w' m,
         of "MacroDefinition ''a-b'' 1 ''div'' None" True]
  show ?thesis using n w by simp
qed

subsection \<open>Files visited before\<close>

lemma twice_import_outcome:
  "outcome (load (twice_page '':import'' True) ''a.html'')
     = Some (Some (elem ''html'' [] [Text ''hello'']), [''/a.html'', ''/b.html''], [])"
  "outcome (load (twice_page '':import'' False) ''a.html'')
     = Some (Some (elem ''html'' [] [Text ''hello'']), [''/a.html'', ''/b.html''], [])"
  by code_simp+

lemma twice_include_outcome:
  "outcome (load (twice_page '':include'' True) ''a.html'')
     = Some (Some (elem ''html'' [] [Text ''hello'', Text ''hello'']),
             [''/a.html'', ''/b.html''], [])"
  "outcome (load (twice_page '':include'' False) ''a.html'')
     = Some (Some (elem ''html'' [] [Text ''hello'', Text ''hello'']),
             [''/a.html'', ''/b.html''], [])"
  by code_simp+

text \<open>
  C6, as the code has it. The depth guard of \<open>parse\<close> comes before the look at the
  visited files: an import of a visited file that is reached at nesting 100 is not
  skipped in silence, it records \<open>too many nested inclusions\<close>.
\<close>

theorem C6_counterexample:
  "map_option (\<lambda>(r, s). (r, files s, errors s))
     (parse (twice_page '':import'' True) ''b.html'' ''/'' visited_session 100 True None)
     = Some (None, [''/a.html'', ''/b.html''],
             [CodeError Error ''too many nested inclusions'' None])
   \<and> files visited_session = [''/a.html'', ''/b.html'']
   \<and> errors visited_session = []"
  by code_simp

text \<open>
  C6, amended. For a file whose relative path is in the list of visited files, and a
  nesting below \<open>MAX_NESTING\<close>: an import (\<open>once\<close> set) returns no tree and leaves
  the session as it is, with no diagnostic and no new entry; an inclusion reads and
  parses the file and processes the directives of its tree as for any file, without a
  new entry in \<open>files\<close>.
\<close>

theorem C6_import_skips_visited_file:
  assumes "nesting < MAX_NESTING"
    and "pname = path_normalize (path_join [rootPath ldr,
                   if startsWith fname ''/'' then [] else currDir, fname])"
    and "startsWith pname (rootPath ldr)"
    and "relPath = drop (length (rootPath ldr)) pname"
    and "relPath \<in> set (files s)"
  shows "parse ldr fname currDir s nesting True from = Some (None, s)
    \<and> (readFile ldr pname = Some text
         \<and> parser ldr text relPath = Inr (ExpressionStatement (Element t ats sc cl cs) # rest)
       \<longrightarrow> parse ldr fname currDir s nesting False from
           = (case alloc (Element t ats sc cl cs) (heap s) (nxt s) of
                (program, h', n') \<Rightarrow>
                  (case processDirectives ldr program (path_dirname relPath)
                          (s\<lparr>heap := h', nxt := n'\<rparr>) nesting of
                     None \<Rightarrow> None
                   | Some s2 \<Rightarrow> Some (Some program, s2))))"
proof -
  have v: "\<not> indexOf (files s) relPath < 0"
    using assms(5) by (simp add: indexOf_neg_iff)
  show ?thesis
    using assms(1-4) v by (simp add: Let_def del: processDirectives.simps)
qed

text \<open>
  The instance: \<open>b.html\<close> asked for again below the root \<open>/www\<close>. Two imports of it
  in one page leave one entry and one copy of its content; two inclusions leave one
  entry and two copies.
\<close>

theorem C6_witness:
  "parse (twice_page '':import'' True) ''b.html'' ''/'' visited_session 1 True None
     = Some (None, visited_session)
   \<and> map_option (\<lambda>(r, s). (r, files s, errors s))
        (parse (twice_page '':include'' True) ''b.html'' ''/'' visited_session 1 False None)
     = Some (Some 0, [''/a.html'', ''/b.html''], [])
   \<and> outcome (load (twice_page '':import'' True) ''a.html'')
     = Some (Some (elem ''html'' [] [Text ''hello'']), [''/a.html'', ''/b.html''], [])
   \<and> outcome (load (twice_page '':include'' True) ''a.html'')
     = Some (Some (elem ''html'' [] [Text ''hello'', Text ''hello'']),
             [''/a.html'', ''/b.html''], [])"
proof -
  have n: "1 < MAX_NESTING" by (simp add: MAX_NESTING_def)
  have p: "''/www/b.html'' = path_normalize (path_join [rootPath (twice_page '':import'' True),
             if startsWith ''b.html'' ''/'' then [] else ''/'', ''b.html''])"
    by code_simp
  have st: "startsWith ''/www/b.html'' (rootPath (twice_page '':import'' True))"
    by code_simp
  have r: "''/b.html'' = drop (length (rootPath (twice_page '':import'' True))) ''/www/b.html''"
    by code_simp
  have f: "''/b.html'' \<in> set (files visited_session)"
    by code_simp
  have i: "parse (twice_page '':import'' True) ''b.html'' ''/'' visited_session 1 True None
             = Some (None, visited_session)"
    using C6_import_skips_visited_file[OF n p st r f] by blast
  have j: "map_option (\<lambda>(r, s). (r, files s, errors s))
        (parse (twice_page '':include'' True) ''b.html'' ''/'' visited_session 1 False None)
     = Some (Some 0, [''/a.html'', ''/b.html''], [])"
    by code_simp
  show ?thesis
    using i j twice_import_outcome(1) twice_include_outcome(1) by simp
qed

subsection \<open>Macro names\<close>

text \<open>
  C3. A \<open>:define\<close> whose name has no dash should get the warning \<open>invalid tag name\<close>
  and no macro. \<open>collectMacro\<close> tests the tag against \<open>/^([\-\w]+)(\:[\-\w]+)?$/\<close> only,
  which \<open>foo\<close> matches, although the warning it would give asks \<open>does it include a dash?\<close>.
  The page \<open><html><:define tag="foo">body</:define><foo>B</foo></html>\<close> loads
  without a diagnostic, the macro \<open>foo\<close> is registered and its use is expanded.
\<close>

theorem C3_dashless_name_is_registered:
  "outcome (load (dashless_page True) ''a.html'')
     = Some (Some (elem ''html'' [] [elem ''div'' [] [Text ''body'', Text ''B'']]),
             [''/a.html''], [])
   \<and> (case load (dashless_page True) ''a.html'' of
         Some (ast, s) \<Rightarrow> macros s ''foo'' \<noteq> None
       | None \<Rightarrow> False)
   \<and> define_tag_exec ''foo'' = Some (''foo'', None)"
  by code_simp

subsection \<open>Attributes of an included root\<close>










subsection \<open>What the tree operations leave alone\<close>

lemma update_element_meta:
  "update_element a f s = Some s' \<Longrightarrow>
     files s' = files s \<and> macros s' = macros s \<and> macros_proto s' = macros_proto s \<and> errors s' = errors s \<and> nxt s' = nxt s"
  by (auto simp: update_element_def split: option.splits)

lemma push_error_meta:
  "files (push_error e s) = files s \<and> macros (push_error e s) = macros s \<and> macros_proto (push_error e s) = macros_proto s
   \<and> heap (push_error e s) = heap s \<and> nxt (push_error e s) = nxt s"
  by (simp add: push_error_def)

lemma addDefaultSlot_meta:
  "addDefaultSlot node s = Some (sl, s') \<Longrightarrow> files s' = files s \<and> macros s' = macros s \<and> macros_proto s' = macros_proto s"
  by (auto simp: addDefaultSlot_def new_node_def dest!: update_element_meta)

lemma slot_visit_meta:
  "files (snd (slot_visit ig acc np)) = files (snd acc)
   \<and> macros (snd (slot_visit ig acc np)) = macros (snd acc)
   \<and> macros_proto (snd (slot_visit ig acc np)) = macros_proto (snd acc)"
  by (auto simp: slot_visit_def push_error_def split: prod.splits option.splits)

lemma foldl_slot_visit_meta:
  "files (snd (foldl (slot_visit ig) acc vs)) = files (snd acc)
   \<and> macros (snd (foldl (slot_visit ig) acc vs)) = macros (snd acc)
   \<and> macros_proto (snd (foldl (slot_visit ig) acc vs)) = macros_proto (snd acc)"
  by (induction vs arbitrary: acc) (simp_all add: slot_visit_meta)

lemma collectSlots_meta:
  assumes "collectSlots ldr node s ig = Some (sl, s')"
  shows "files s' = files s \<and> macros s' = macros s \<and> macros_proto s' = macros_proto s"
proof -
  from assms obtain vs where vs: "walk (visitAfter ldr) (heap s) (nxt s) [] node = Some vs"
    by (auto simp: collectSlots_def split: option.splits)
  obtain ret s1 where f: "foldl (slot_visit ig) (no_slots, s) vs = (ret, s1)"
    by (cases "foldl (slot_visit ig) (no_slots, s) vs")
  have m: "files s1 = files s \<and> macros s1 = macros s \<and> macros_proto s1 = macros_proto s"
    using foldl_slot_visit_meta[of ig "(no_slots, s)" vs] f by simp
  show ?thesis
  proof (cases "slot_get ret SLOT_DEFAULT_NAME = Absent \<and> ig = None")
    case True
    with assms vs f obtain slot where "addDefaultSlot node s1 = Some (slot, s')"
      by (auto simp: collectSlots_def)
    from addDefaultSlot_meta[OF this] m show ?thesis by simp
  next
    case False
    with assms vs f have "s' = s1" by (auto simp: collectSlots_def)
    with m show ?thesis by simp
  qed
qed

lemma routeChildren_meta:
  "routeChildren sl nodes s = Some s' \<Longrightarrow> files s' = files s \<and> macros s' = macros s \<and> macros_proto s' = macros_proto s"
proof (induction nodes arbitrary: s)
  case Nil
  then show ?case by simp
next
  case (Cons n ns)
  then obtain s1 where s1: "routeChild sl n s = Some s1" "routeChildren sl ns s1 = Some s'"
    by (auto split: option.splits)
  from s1(1) have "files s1 = files s \<and> macros s1 = macros s \<and> macros_proto s1 = macros_proto s"
    by (auto simp: routeChild_def split: property.splits dest!: update_element_meta)
  with Cons.IH[OF s1(2)] show ?case by simp
qed

lemma replaceSlots_meta:
  "replaceSlots sl ks s = Some s' \<Longrightarrow> files s' = files s \<and> macros s' = macros s \<and> macros_proto s' = macros_proto s"
proof (induction ks arbitrary: s)
  case Nil
  then show ?case by simp
next
  case (Cons k ks)
  then obtain s1 where s1: "replaceSlot sl k s = Some s1" "replaceSlots sl ks s1 = Some s'"
    by (auto split: option.splits)
  from s1(1) have "files s1 = files s \<and> macros s1 = macros s \<and> macros_proto s1 = macros_proto s"
    by (auto simp: replaceSlot_def split: option.splits property.splits dest!: update_element_meta)
  with Cons.IH[OF s1(2)] show ?case by simp
qed

lemma removeOldSlots_meta:
  "removeOldSlots sl ks s = Some s' \<Longrightarrow> files s' = files s \<and> macros s' = macros s \<and> macros_proto s' = macros_proto s"
proof (induction ks arbitrary: s)
  case Nil
  then show ?case by simp
next
  case (Cons k ks)
  then obtain s1 where s1: "removeOldSlot sl k s = Some s1" "removeOldSlots sl ks s1 = Some s'"
    by (auto split: option.splits)
  from s1(1) have "files s1 = files s \<and> macros s1 = macros s \<and> macros_proto s1 = macros_proto s"
    by (auto simp: removeOldSlot_def split: property.splits dest!: update_element_meta)
  with Cons.IH[OF s1(2)] show ?case by simp
qed

lemma populateMacro_meta:
  assumes "populateMacro ldr src dst s rs = Some (sl, s')"
  shows "files s' = files s \<and> macros s' = macros s \<and> macros_proto s' = macros_proto s"
proof -
  from assms obtain se s1 sl1 s2 s3 where
    st: "elem_at (heap s) src = Some se"
        "update_element dst (\<lambda>d. foldl (merge_attribute se) d (getJSXAttributeKeys se)) s = Some s1"
        "collectSlots ldr dst s1 None = Some (sl1, s2)"
        "routeChildren sl1 (children se) s2 = Some s3"
    and fin: "(\<not> rs \<and> s' = s3) \<or> (rs \<and> replaceSlots sl1 (ownKeys (own_slots sl1)) s3 = Some s')"
    by (auto simp: populateMacro_def split: option.splits if_splits)
  have "files s3 = files s \<and> macros s3 = macros s \<and> macros_proto s3 = macros_proto s"
    using update_element_meta[OF st(2)] collectSlots_meta[OF st(3)] routeChildren_meta[OF st(4)]
    by simp
  with fin show ?thesis by (auto dest: replaceSlots_meta)
qed

lemma clone_meta:
  "clone a s = Some (r, s') \<Longrightarrow> files s' = files s \<and> macros s' = macros s \<and> macros_proto s' = macros_proto s"
  by (auto simp: clone_def split: option.splits prod.splits)

lemma expandMacro_meta:
  assumes "expandMacro ldr u m s rs nesting = Some (r, s')"
  shows "files s' = files s \<and> macros s' = macros s \<and> macros_proto s' = macros_proto s"
proof (cases "nesting > MAX_NESTING")
  case True
  with assms show ?thesis by (auto simp: expandMacro_def push_error_def)
next
  case False
  with assms obtain ret s1 old s2 where
    st: "clone (mnode m) s = Some (ret, s1)" "populateMacro ldr u ret s1 rs = Some (old, s2)"
    and fin: "(rs \<and> s' = s2) \<or>
              (\<not> rs \<and> (\<exists>new s3. collectSlots ldr ret s2 (Some old) = Some (new, s3)
                      \<and> removeOldSlots old (ownKeys (own_slots new)) s3 = Some s'))"
    by (auto simp: expandMacro_def split: option.splits if_splits)
  have "files s2 = files s \<and> macros s2 = macros s \<and> macros_proto s2 = macros_proto s"
    using clone_meta[OF st(1)] populateMacro_meta[OF st(2)] by simp
  with fin show ?thesis by (auto dest!: collectSlots_meta removeOldSlots_meta)
qed

lemma collectMacro_files:
  "collectMacro ldr d s = Some s' \<Longrightarrow> files s' = files s"
  by (auto simp: collectMacro_def push_error_def macro_set_def Let_def
           split: option.splits if_splits prod.splits property.splits
           dest!: update_element_meta expandMacro_meta)

lemma removeDirective_meta:
  "removeDirective d i s = Some s' \<Longrightarrow> files s' = files s \<and> macros s' = macros s \<and> macros_proto s' = macros_proto s"
  by (auto simp: removeDirective_def split: if_splits dest!: update_element_meta)

lemma spliceIncluded_meta:
  "spliceIncluded d i r s = Some s' \<Longrightarrow> files s' = files s \<and> macros s' = macros s \<and> macros_proto s' = macros_proto s"
  by (auto simp: spliceIncluded_def applyIncludedAttributes_def
           split: option.splits dest!: update_element_meta)

subsection \<open>The list of visited files\<close>

text \<open>
  The list of files stays free of duplicates through \<open>parse\<close> and the functions it
  calls: by induction on their calls.
\<close>

lemma parse_family_distinct:
  "parse ldr fname currDir s nesting once from = Some (r, s') \<Longrightarrow> distinct (files s) \<Longrightarrow> distinct (files s')"
  "processDirectives ldr program currDir s nesting = Some s' \<Longrightarrow> distinct (files s) \<Longrightarrow> distinct (files s')"
  "directivesLoop ldr ds currDir s nesting = Some s' \<Longrightarrow> distinct (files s) \<Longrightarrow> distinct (files s')"
  "processInclude ldr d i currDir s nesting = Some s' \<Longrightarrow> distinct (files s) \<Longrightarrow> distinct (files s')"
proof (induction ldr fname currDir s nesting once "from" and ldr program currDir s nesting
         and ldr ds currDir s nesting and ldr d i currDir s nesting
         arbitrary: r s' and s' and s' and s'
         rule: parse_processDirectives_directivesLoop_processInclude.induct)
  case (1 ldr fname currDir s nesting once "from")
  let ?pname = "path_normalize (path_join [rootPath ldr,
                   if startsWith fname ''/'' then [] else currDir, fname])"
  let ?relPath = "drop (length (rootPath ldr)) ?pname"
  let ?s1 = "if indexOf (files s) ?relPath < 0
             then s\<lparr>files := files s @ [?relPath]\<rparr> else s"
  have d1: "distinct (files ?s1)"
    using "1.prems"(2) by (auto simp: indexOf_neg_iff)
  show ?case
  proof (cases "nesting \<ge> MAX_NESTING")
    case True
    with "1.prems" show ?thesis by (auto simp: push_error_def)
  next
    case False
    show ?thesis
    proof (cases "startsWith ?pname (rootPath ldr)")
      case f: False
      with False "1.prems" show ?thesis
        by (auto simp: push_error_def Let_def simp del: processDirectives.simps)
    next
      case st: True
      show ?thesis
      proof (cases "\<not> indexOf (files s) ?relPath < 0 \<and> once")
        case True
        with False st "1.prems" show ?thesis
          by (auto simp: Let_def simp del: processDirectives.simps)
      next
        case nskip: False
        show ?thesis
        proof (cases "readFile ldr ?pname")
          case None
          with False st nskip "1.prems"(1) have "files s' = files ?s1"
            by (auto simp: Let_def push_error_def
                simp del: processDirectives.simps split: if_splits)
          with d1 show ?thesis by simp
        next
          case (Some content)
          show ?thesis
          proof (cases "parser ldr content ?relPath")
            case (Inl err)
            with Some False st nskip "1.prems"(1) have "files s' = files ?s1"
              by (auto simp: Let_def push_error_def
                  simp del: processDirectives.simps split: if_splits)
            with d1 show ?thesis by simp
          next
            case (Inr body)
            show ?thesis
            proof (cases "\<exists>t ats sc cl cs rest. body = ExpressionStatement (Element t ats sc cl cs) # rest")
              case True
              then obtain t ats sc cl cs rest where
                body: "body = ExpressionStatement (Element t ats sc cl cs) # rest" by blast
              obtain program h' n' where al:
                "alloc (Element t ats sc cl cs) (heap ?s1) (nxt ?s1) = (program, h', n')"
                by (cases "alloc (Element t ats sc cl cs) (heap ?s1) (nxt ?s1)")
              from "1.prems"(1) False st nskip Some Inr body al
              have pd: "processDirectives ldr program (path_dirname ?relPath)
                          (?s1\<lparr>heap := h', nxt := n'\<rparr>) nesting = Some s'"
                by (auto simp: Let_def
                    simp del: processDirectives.simps split: if_splits option.splits)
              have d2: "distinct (files (?s1\<lparr>heap := h', nxt := n'\<rparr>))" using d1 by simp
              have st': "\<not> \<not> startsWith ?pname (rootPath ldr)" using st by simp
              show ?thesis
                by (rule "1.IH"[OF False refl refl st' refl nskip refl Some Inr body refl refl
                                   al[symmetric] refl pd d2])
            next
              case nb: False
              with Inr Some False st nskip "1.prems"(1) have "files s' = files ?s1"
                by (auto simp: Let_def push_error_def
                    simp del: processDirectives.simps
                    split: if_splits list.splits stmt.splits jsx.splits)
              with d1 show ?thesis by simp
            qed
          qed
        qed
      qed
    qed
  qed
next
  case (2 ldr program currDir s nesting)
  then show ?case
    by (auto split: option.splits)
next
  case (3 ldr currDir s nesting)
  then show ?case by simp
next
  case (4 ldr d ds currDir s nesting)
  let ?step = "\<lambda>i. if dname d = INCLUDE_TAG \<or> dname d = IMPORT_TAG
       then case removeDirective d i s of None \<Rightarrow> None
            | Some s1 \<Rightarrow> processInclude ldr d i currDir s1 nesting
       else if dname d = DEFINE_TAG
            then case removeDirective d i s of None \<Rightarrow> None
                 | Some s1 \<Rightarrow> collectMacro ldr d s1
            else if dname d = SLOT_TAG then Some s
                 else case removeDirective d i s of None \<Rightarrow> None
                      | Some s1 \<Rightarrow>
                          Some (push_error (CodeError Warning
                                  (''unknown directive '' @ dname d) (Some (dnode d))) s1)"
  from "4.prems"(1) obtain p sm where
    p: "elem_at (heap s) (dparent d) = Some p"
    and step: "?step (indexOf (children p) (dnode d)) = Some sm"
    and rest: "directivesLoop ldr ds currDir sm nesting = Some s'"
    by (auto simp: Let_def simp del: processInclude.simps split: option.splits)
  have dm: "distinct (files sm)"
  proof (cases "dname d = INCLUDE_TAG \<or> dname d = IMPORT_TAG")
    case True
    with step obtain s1 where
      rd: "removeDirective d (indexOf (children p) (dnode d)) s = Some s1"
      and pi: "processInclude ldr d (indexOf (children p) (dnode d)) currDir s1 nesting = Some sm"
      by (auto simp del: processInclude.simps split: option.splits)
    have "distinct (files s1)" using removeDirective_meta[OF rd] "4.prems"(2) by simp
    from "4.IH"(1)[OF p refl True rd pi this] show ?thesis .
  next
    case False
    with step "4.prems"(2) show ?thesis
      by (auto simp: push_error_def split: if_splits option.splits
               dest!: removeDirective_meta collectMacro_files)
  qed
  show ?case
    by (rule "4.IH"(2)[OF p refl step rest dm])
next
  case (5 ldr d i currDir s nesting)
  show ?case
  proof (cases "\<exists>e src. elem_at (heap s) (dnode d) = Some e
                  \<and> getJSXAttribute e INCLUDE_SRC_ATTR = Some src \<and> \<not> is_blank src")
    case True
    then obtain e src where e: "elem_at (heap s) (dnode d) = Some e"
      "getJSXAttribute e INCLUDE_SRC_ATTR = Some src" "\<not> is_blank src" by blast
    with "5.prems"(1) obtain r s1 where
      pr: "parse ldr src currDir s (nesting + 1) (dname d = IMPORT_TAG) (Some (dnode d))
             = Some (r, s1)"
      and fin: "(r = None \<and> s' = s1) \<or> (\<exists>program. r = Some program
                  \<and> spliceIncluded d i program s1 = Some s')"
      by (auto simp del: parse.simps split: option.splits)
    from "5.IH"[OF e pr "5.prems"(2)] have "distinct (files s1)" .
    with fin show ?thesis by (auto dest!: spliceIncluded_meta)
  next
    case False
    with "5.prems" show ?thesis
      by (auto simp: push_error_def simp del: parse.simps split: option.splits if_splits)
  qed
qed

lemma for_each_preserves:
  assumes "\<And>x s s'. x \<in> set xs \<Longrightarrow> body x s = Some s' \<Longrightarrow> Q s \<Longrightarrow> Q s'"
  shows "for_each body xs s = Some s' \<Longrightarrow> Q s \<Longrightarrow> Q s'"
  using assms
proof (induction xs arbitrary: s)
  case Nil
  then show ?case by simp
next
  case (Cons x xs)
  from Cons.prems(1) obtain s1 where s1: "body x s = Some s1" "for_each body xs s1 = Some s'"
    by (auto split: bind_splits)
  have "Q s1" using Cons.prems(3)[OF _ s1(1) Cons.prems(2)] by simp
  show ?case
    by (rule Cons.IH[OF s1(2) \<open>Q s1\<close>]) (use Cons.prems(3) in auto)
qed

lemma collectUsages_meta:
  "collectUsages ldr nesting vs ee s = Some (ee', s')
     \<Longrightarrow> files s' = files s \<and> macros s' = macros s \<and> macros_proto s' = macros_proto s"
proof (induction vs arbitrary: ee s)
  case Nil
  then show ?case by simp
next
  case (Cons v vs)
  obtain node par where v: "v = (node, par)" by (cases v)
  from Cons.prems v obtain e where e: "elem_at (heap s) node = Some e"
    by (auto split: option.splits)
  show ?case
  proof (cases "macro_get s (tag e)")
    case Absent
    with Cons.prems v e have "collectUsages ldr nesting vs ee s = Some (ee', s')" by simp
    from Cons.IH[OF this] show ?thesis .
  next
    case (Foreign nm)
    with Cons.prems v e have
      "collectUsages ldr nesting vs (ee @ [\<lparr>use = node, res = node, parent = par\<rparr>])
         (push_error (CodeError Error (''too many nested macros '' @ dq @ nm @ dq) (Some node)) s)
       = Some (ee', s')"
      by (auto split: if_splits)
    from Cons.IH[OF this] show ?thesis by (simp add: push_error_def)
  next
    case (Entry m)
    with Cons.prems v e obtain r s1 where
      x: "expandMacro ldr node m s True nesting = Some (r, s1)"
      and c: "collectUsages ldr nesting vs (ee @ [\<lparr>use = node, res = r, parent = par\<rparr>]) s1
                = Some (ee', s')"
      by (auto split: option.splits)
    from expandMacro_meta[OF x] Cons.IH[OF c] show ?thesis by simp
  qed
qed

lemma expandMacros_meta:
  assumes "expandMacros ldr root s nesting = Some s'"
  shows "files s' = files s \<and> macros s' = macros s \<and> macros_proto s' = macros_proto s"
proof (rule expandMacros.raw_induct[where P = "\<lambda>ldr root s nesting s'.
                files s' = files s \<and> macros s' = macros s \<and> macros_proto s' = macros_proto s", OF _ assms])
  fix f :: "loader \<Rightarrow> addr \<Rightarrow> session \<Rightarrow> nat \<Rightarrow> session option"
    and ldr root s nesting s'
  assume IH: "\<And>ldr root s nesting s'. f ldr root s nesting = Some s'
                \<Longrightarrow> files s' = files s \<and> macros s' = macros s \<and> macros_proto s' = macros_proto s"
  assume eq: "Option.bind (walk (visitAfter ldr) (heap s) (nxt s) [] root)
       (\<lambda>visited. Option.bind (collectUsages ldr nesting visited [] s)
          (\<lambda>es. for_each
                   (\<lambda>e st. Option.bind (replaceUsage e st)
                              (\<lambda>st'. f ldr (res e) st' (nesting + 1)))
                   (fst es) (snd es))) = Some s'"
  from eq obtain visited ee s1 where
    c: "collectUsages ldr nesting visited [] s = Some (ee, s1)"
    and l: "for_each (\<lambda>e st. Option.bind (replaceUsage e st)
                       (\<lambda>st'. f ldr (res e) st' (nesting + 1))) ee s1 = Some s'"
    by (auto split: bind_splits)
  have m1: "files s1 = files s \<and> macros s1 = macros s \<and> macros_proto s1 = macros_proto s" by (rule collectUsages_meta[OF c])
  show "files s' = files s \<and> macros s' = macros s \<and> macros_proto s' = macros_proto s"
  proof (rule for_each_preserves[OF _ l, where Q = "\<lambda>t. files t = files s \<and> macros t = macros s \<and> macros_proto t = macros_proto s"])
    fix x t t'
    assume b: "Option.bind (replaceUsage x t) (\<lambda>st'. f ldr (res x) st' (nesting + 1)) = Some t'"
      and q: "files t = files s \<and> macros t = macros s \<and> macros_proto t = macros_proto s"
    from b obtain t1 where t1: "replaceUsage x t = Some t1" "f ldr (res x) t1 (nesting + 1) = Some t'"
      by (auto split: bind_splits)
    from t1(1) have "files t1 = files t \<and> macros t1 = macros t \<and> macros_proto t1 = macros_proto t"
      by (auto simp: replaceUsage_def dest!: update_element_meta)
    with IH[OF t1(2)] q show "files t' = files s \<and> macros t' = macros s \<and> macros_proto t' = macros_proto s" by simp
  next
    show "files s1 = files s \<and> macros s1 = macros s \<and> macros_proto s1 = macros_proto s" by (rule m1)
  qed
qed

text \<open>
  C9. The list of files of a session that \<open>load\<close> returns has no duplicates,
  whatever directives the pages hold: \<open>parse\<close> appends a path only when
  \<open>indexOf\<close> does not find it, and nothing else writes to the list.
\<close>

theorem C9_files_never_has_duplicates:
  assumes "load ldr fname = Some (ast, s)"
  shows "distinct (files s)"
proof -
  from assms obtain r s1 where
    p: "parse ldr fname ''.'' new_session 0 False None = Some (r, s1)"
    and fin: "(r = None \<and> s = s1) \<or> (\<exists>a. r = Some a \<and> expandMacros ldr a s1 0 = Some s)"
    by (auto simp: load_def simp del: parse.simps split: option.splits)
  have "distinct (files new_session)" by (simp add: new_session_def)
  from parse_family_distinct(1)[OF p this] have "distinct (files s1)" .
  with fin show ?thesis by (auto dest!: expandMacros_meta)
qed


theorem C9_witness:
  "outcome (load (mix_page True) ''a.html'')
     = Some (Some (elem ''html'' [] [Text ''hello'', Text ''hello'']),
             [''/a.html'', ''/b.html''], [])
   \<and> distinct (files (snd (the (load (mix_page True) ''a.html''))))"
proof -
  have o: "outcome (load (mix_page True) ''a.html'')
     = Some (Some (elem ''html'' [] [Text ''hello'', Text ''hello'']),
             [''/a.html'', ''/b.html''], [])"
    by code_simp
  then obtain ast s where l: "load (mix_page True) ''a.html'' = Some (ast, s)"
    by (cases "load (mix_page True) ''a.html''") (auto simp: outcome_def)
  from C9_files_never_has_duplicates[OF l] l o show ?thesis by simp
qed

subsection \<open>The macro registry\<close>






subsection \<open>The depth of inclusion\<close>

lemma split_sep_plain: "CHR ''/'' \<notin> set n \<Longrightarrow> split_sep n = [n]"
  by (induction n) auto

lemma chain_resolve:
  assumes "CHR ''/'' \<notin> set rest" and "d = ''.'' \<or> d = ''/''"
  shows "path_normalize (path_join [''/www'', d, CHR ''a'' # rest]) = ''/www/'' @ CHR ''a'' # rest"
proof -
  have sp: "split_sep (CHR ''a'' # rest) = [CHR ''a'' # rest]"
    using assms(1) by (intro split_sep_plain) simp
  have l: "last (CHR ''a'' # rest) \<noteq> CHR ''/''"
  proof (cases "rest = []")
    case True
    then show ?thesis by simp
  next
    case False
    then have "last rest \<in> set rest" by (rule last_in_set)
    with assms(1) have "last rest \<noteq> CHR ''/''" by metis
    with False show ?thesis by simp
  qed
  have n1: "path_normalize (''/www/'' @ CHR ''a'' # rest) = ''/www/'' @ CHR ''a'' # rest"
    using l sp by (simp add: path_normalize_def normalizeString_def norm_step_def Let_def)
  have j1: "path_join [''/www'', ''.'', CHR ''a'' # rest] = ''/www/'' @ CHR ''a'' # rest"
    using l sp
    by (simp add: path_join_def path_normalize_def normalizeString_def norm_step_def Let_def)
  have j2: "path_join [''/www'', ''/'', CHR ''a'' # rest] = ''/www/'' @ CHR ''a'' # rest"
    using l sp
    by (simp add: path_join_def path_normalize_def normalizeString_def norm_step_def Let_def)
  from assms(2) j1 j2 n1 show ?thesis by (elim disjE) simp_all
qed

lemma chain_dirname:
  assumes "CHR ''/'' \<notin> set rest"
  shows "path_dirname (''/'' @ CHR ''a'' # rest) = ''/''"
proof -
  have a: "dropWhile (\<lambda>c. c = CHR ''/'') (rev rest @ ''a'') = rev rest @ ''a''"
    using assms by (cases "rev rest") auto
  have b: "dropWhile (\<lambda>c. c \<noteq> CHR ''/'') (rev rest @ ''a'') = []"
    using assms by (auto simp: dropWhile_eq_Nil_conv)
  show ?thesis by (simp add: path_dirname_def a b)
qed

lemma not_blank_a: "\<not> is_blank (CHR ''a'' # cs)"
proof (cases cs)
  case Nil
  then show ?thesis by (simp add: is_space_def)
next
  case (Cons d ds)
  then show ?thesis
    by (cases ds) (simp_all add: is_space_def is_space2_def is_space3_def)
qed

lemma chain_name_Cons: "chain_name k = CHR ''a'' # replicate k (CHR ''a'')"
  by (simp add: chain_name_def)

lemma chain_name_next: "chain_name k @ ''a'' = chain_name (Suc k)"
  by (simp add: chain_name_def replicate_append_same)

lemma chain_read:
  assumes "k \<le> 100"
  shows "readFile (chain_loader after) (''/www/'' @ chain_name k) = Some (chain_name k)"
  using assms by (simp add: chain_loader_def chain_name_def list_all_iff)

lemma chain_parser:
  assumes "k < 100"
  shows "parser (chain_loader after) (chain_name k) rel
           = Inr [ExpressionStatement (Element ''html'' [] False (Some ''html'')
                    [Element '':include'' [(''src'', Literal (chain_name (Suc k)))] True None []])]"
  using assms chain_name_next[of k]
  by (simp add: chain_loader_def elem_def elem0_def) (simp add: chain_name_def)

lemma page_walk:
  assumes "h (Suc n) = Some (JSXElement e1)" "children e1 = []"
    and "h n = Some (JSXElement e0)" "children e0 = [Suc n]"
  shows "walk after h (Suc (Suc n)) [] n = Some [(Suc n, n)]"
proof -
  have c: "walk after h (Suc (Suc n)) [n] (Suc n) = Some [(Suc n, n)]"
    by (subst walk.simps) (simp add: assms Let_def)
  show ?thesis
    by (subst walk.simps) (simp add: assms c Let_def)
qed


lemma chain_unfold:
  assumes "k < 100" and "d = ''.'' \<or> d = ''/''"
  shows "\<exists>sB. errors sB = errors s \<and> nxt sB = Suc (Suc (nxt s))
           \<and> (\<forall>x < nxt s. heap sB x = heap s x)
           \<and> elem_at (heap sB) (nxt s)
               = Some \<lparr>tag = ''html'', attributes = [], selfClosing = False,
                       closingTag = Some ''html'', children = []\<rparr>
           \<and> parse (chain_loader after) (chain_name k) d s k False origin
               = (case parse (chain_loader after) (chain_name (Suc k)) ''/'' sB (Suc k) False
                         (Some (Suc (nxt s))) of
                    None \<Rightarrow> None
                  | Some (None, s3) \<Rightarrow> Some (Some (nxt s), s3)
                  | Some (Some prog, s3) \<Rightarrow>
                      (case spliceIncluded \<lparr>dname = '':include'', dnode = Suc (nxt s),
                                             dparent = nxt s\<rparr> 0 prog s3 of
                         None \<Rightarrow> None
                       | Some s4 \<Rightarrow> Some (Some (nxt s), s4)))"
proof -
  let ?L = "chain_loader after"
  let ?n = "nxt s"
  let ?e1 = "\<lparr>tag = '':include'', attributes = [(''src'', Literal (chain_name (Suc k)))],
              selfClosing = True, closingTag = None, children = []\<rparr>"
  let ?e0 = "\<lambda>cs. \<lparr>tag = ''html'', attributes = [], selfClosing = False,
                          closingTag = Some ''html'', children = cs\<rparr>"
  let ?d0 = "\<lparr>dname = '':include'', dnode = Suc ?n, dparent = ?n\<rparr>"
  let ?rel = "''/'' @ chain_name k"
  define s1 where "s1 = (if indexOf (files s) ?rel < 0 then s\<lparr>files := files s @ [?rel]\<rparr> else s)"
  define sA where "sA = s1\<lparr>heap := (heap s1)(Suc ?n \<mapsto> JSXElement ?e1, ?n \<mapsto> JSXElement (?e0 [Suc ?n])),
                           nxt := Suc (Suc ?n)\<rparr>"
  define sB where "sB = sA\<lparr>heap := (heap sA)(?n \<mapsto> JSXElement (?e0 []))\<rparr>"
  have s1: "heap s1 = heap s" "nxt s1 = nxt s" "errors s1 = errors s"
    by (simp_all add: s1_def)
  have sA: "heap sA (Suc ?n) = Some (JSXElement ?e1)" "heap sA ?n = Some (JSXElement (?e0 [Suc ?n]))"
    "nxt sA = Suc (Suc ?n)"
    by (simp_all add: sA_def)
  have sB: "heap sB (Suc ?n) = Some (JSXElement ?e1)" "heap sB ?n = Some (JSXElement (?e0 []))"
    "nxt sB = Suc (Suc ?n)" "errors sB = errors s" "\<forall>x < ?n. heap sB x = heap s x"
    by (simp_all add: sB_def sA_def s1)
  have slash: "CHR ''/'' \<notin> set (replicate k (CHR ''a''))" by simp
  have pn: "path_normalize (path_join [''/www'', d, chain_name k]) = ''/www/'' @ chain_name k"
    unfolding chain_name_Cons by (rule chain_resolve[OF slash assms(2)])
  have dn: "path_dirname ?rel = ''/''"
    unfolding chain_name_Cons by (rule chain_dirname[OF slash])
  have root: "rootPath ?L = ''/www''" by (simp add: chain_loader_def)
  have nsl: "\<not> startsWith (chain_name k) ''/''" by (simp add: chain_name_Cons)
  have rd: "readFile ?L (''/www/'' @ chain_name k) = Some (chain_name k)"
    using assms(1) by (intro chain_read) simp
  have step1: "parse ?L (chain_name k) d s k False origin
      = (case processDirectives ?L ?n ''/'' sA k of
           None \<Rightarrow> None | Some s2 \<Rightarrow> Some (Some ?n, s2))"
    apply (subst parse.simps)
    using assms(1) nsl
    apply (simp only: root pn Let_def if_False)
    apply (simp add: MAX_NESTING_def rd[simplified] chain_parser[OF assms(1)] dn[simplified]
                     sA_def s1_def
                del: processDirectives.simps parse.simps cong: option.case_cong)
    done
  have w: "walk (visitAfter ?L) (heap sA) (nxt sA) [] ?n = Some [(Suc ?n, ?n)]"
    unfolding sA(3) by (rule page_walk[OF sA(1) _ sA(2)]) simp_all
  have cd: "collect_directives (heap sA) [(Suc ?n, ?n)] = [?d0]"
    by (simp add: collect_directives_def elem_at_def sA TAGS_PREFIX_def)
  have step2: "processDirectives ?L ?n ''/'' sA k = directivesLoop ?L [?d0] ''/'' sA k"
    by (simp only: processDirectives.simps w cd option.case)
  have rm: "removeDirective ?d0 0 sA = Some sB"
    by (simp add: removeDirective_def update_element_def elem_at_def sA sB_def splice_def)
  have step3: "directivesLoop ?L [?d0] ''/'' sA k = processInclude ?L ?d0 0 ''/'' sB k"
    apply (subst directivesLoop.simps)
    apply (simp add: elem_at_def sA INCLUDE_TAG_def rm
                del: processInclude.simps parse.simps split: option.splits)
    done
  have nb: "\<not> is_blank (chain_name (Suc k))"
    by (simp add: chain_name_Cons not_blank_a)
  have src: "getJSXAttribute ?e1 INCLUDE_SRC_ATTR = Some (chain_name (Suc k))"
    by (simp add: getJSXAttribute_def getJSXAttributeNode_def INCLUDE_SRC_ATTR_def)
  have step4: "processInclude ?L ?d0 0 ''/'' sB k
      = (case parse ?L (chain_name (Suc k)) ''/'' sB (Suc k) False (Some (Suc ?n)) of
           None \<Rightarrow> None
         | Some (None, s3) \<Rightarrow> Some s3
         | Some (Some prog, s3) \<Rightarrow> spliceIncluded ?d0 0 prog s3)"
    apply (subst processInclude.simps)
    apply (simp add: elem_at_def sB src nb INCLUDE_TAG_def IMPORT_TAG_def del: parse.simps)
    done
  have "parse ?L (chain_name k) d s k False origin
               = (case parse ?L (chain_name (Suc k)) ''/'' sB (Suc k) False (Some (Suc ?n)) of
                    None \<Rightarrow> None
                  | Some (None, s3) \<Rightarrow> Some (Some ?n, s3)
                  | Some (Some prog, s3) \<Rightarrow>
                      (case spliceIncluded ?d0 0 prog s3 of
                         None \<Rightarrow> None
                       | Some s4 \<Rightarrow> Some (Some ?n, s4)))"
    unfolding step1 step2 step3 step4
    by (cases "parse ?L (chain_name (Suc k)) ''/'' sB (Suc k) False (Some (Suc ?n))")
       (auto simp del: parse.simps split: option.splits)
  moreover have "elem_at (heap sB) ?n = Some (?e0 [])" by (simp add: elem_at_def sB)
  ultimately show ?thesis using sB(3,4,5) by blast
qed


lemma update_element_ok:
  assumes "elem_at (heap s) a = Some e"
  shows "\<exists>s'. update_element a f s = Some s' \<and> errors s' = errors s \<and> nxt s' = nxt s
           \<and> (\<forall>x. x \<noteq> a \<longrightarrow> heap s' x = heap s x)
           \<and> elem_at (heap s') a = Some (f e)"
  using assms by (simp add: update_element_def elem_at_def)

lemma spliceIncluded_empty:
  assumes "elem_at (heap s) (dparent d) = Some p" and "elem_at (heap s) r = Some re"
    and "attributes re = []" and "children re = []"
  shows "\<exists>s'. spliceIncluded d 0 r s = Some s' \<and> errors s' = errors s \<and> nxt s' = nxt s
           \<and> (\<forall>x. x \<noteq> dparent d \<longrightarrow> heap s' x = heap s x)
           \<and> elem_at (heap s') (dparent d) = Some p"
proof -
  have inc: "included_attributes p re = []"
    by (simp add: included_attributes_def getJSXAttributeKeys_def assms(3))
  from update_element_ok[OF assms(1), of "\<lambda>p. p\<lparr>attributes := attributes p @ included_attributes p re\<rparr>"]
  obtain s1 where s1: "applyIncludedAttributes d r s = Some s1" "errors s1 = errors s"
    "nxt s1 = nxt s" "\<forall>x. x \<noteq> dparent d \<longrightarrow> heap s1 x = heap s x"
    "elem_at (heap s1) (dparent d) = Some p"
    using assms(2) inc by (auto simp: applyIncludedAttributes_def)
  have re': "elem_at (heap s1) r = Some re"
  proof (cases "r = dparent d")
    case True
    with s1(5) assms(1,2) show ?thesis by simp
  next
    case False
    with s1(4) assms(2) show ?thesis by (simp add: elem_at_def)
  qed
  have sp: "p\<lparr>children := splice (children p) 0 0 (trimmed_children (heap s1) (children re))\<rparr> = p"
    by (simp add: assms(4) trimmed_children_def splice_def)
  from update_element_ok[OF s1(5), of "\<lambda>p. p\<lparr>children :=
          splice (children p) 0 0 (trimmed_children (heap s1) (children re))\<rparr>"]
  obtain s2 where s2: "spliceIncluded d 0 r s = Some s2" "errors s2 = errors s1"
    "nxt s2 = nxt s1" "\<forall>x. x \<noteq> dparent d \<longrightarrow> heap s2 x = heap s1 x"
    "elem_at (heap s2) (dparent d) = Some p"
    using s1(1) re' sp by (auto simp: spliceIncluded_def)
  with s1 show ?thesis by auto
qed

lemma chain_parse:
  assumes "k \<le> 100" and "d = ''.'' \<or> d = ''/''"
  shows "\<exists>r s'. parse (chain_loader after) (chain_name k) d s k False origin = Some (r, s')
           \<and> (\<exists>a. errors s' = errors s @ [CodeError Error ''too many nested inclusions'' a])
           \<and> (\<forall>x < nxt s. heap s' x = heap s x) \<and> nxt s \<le> nxt s'
           \<and> (k < 100 \<longrightarrow> r = Some (nxt s) \<and> nxt s < nxt s'
                 \<and> elem_at (heap s') (nxt s)
                     = Some \<lparr>tag = ''html'', attributes = [], selfClosing = False,
                             closingTag = Some ''html'', children = []\<rparr>)
           \<and> (\<not> k < 100 \<longrightarrow> r = None)"
  using assms
proof (induction "100 - k" arbitrary: k d s origin)
  case 0
  then have "k = 100" by simp
  then show ?case by (simp add: MAX_NESTING_def push_error_def)
next
  case (Suc m)
  then have k: "k < 100" "m = 100 - Suc k" "Suc k \<le> 100" by simp_all
  let ?n = "nxt s"
  let ?d0 = "\<lparr>dname = '':include'', dnode = Suc ?n, dparent = ?n\<rparr>"
  let ?e0 = "\<lparr>tag = ''html'', attributes = [], selfClosing = False,
               closingTag = Some ''html'', children = []\<rparr>"
  from chain_unfold[OF k(1) Suc.prems(2), where s = s and after = after and origin = origin]
  obtain sB where
    sB: "errors sB = errors s" "nxt sB = Suc (Suc ?n)" "\<forall>x < ?n. heap sB x = heap s x"
      "elem_at (heap sB) ?n = Some ?e0"
    and un: "parse (chain_loader after) (chain_name k) d s k False origin
               = (case parse (chain_loader after) (chain_name (Suc k)) ''/'' sB (Suc k) False
                         (Some (Suc ?n)) of
                    None \<Rightarrow> None
                  | Some (None, s3) \<Rightarrow> Some (Some ?n, s3)
                  | Some (Some prog, s3) \<Rightarrow>
                      (case spliceIncluded ?d0 0 prog s3 of
                         None \<Rightarrow> None
                       | Some s4 \<Rightarrow> Some (Some ?n, s4)))"
    by blast
  from Suc.hyps(1)[OF k(2) k(3), where d = "''/''" and s = sB and origin = "Some (Suc ?n)"]
  obtain r3 s3 a where
    p3: "parse (chain_loader after) (chain_name (Suc k)) ''/'' sB (Suc k) False (Some (Suc ?n))
           = Some (r3, s3)"
    and e3: "errors s3 = errors sB @ [CodeError Error ''too many nested inclusions'' a]"
    and f3: "\<forall>x < nxt sB. heap s3 x = heap sB x" and g3: "nxt sB \<le> nxt s3"
    and r3: "Suc k < 100 \<longrightarrow> r3 = Some (nxt sB) \<and> elem_at (heap s3) (nxt sB) = Some ?e0"
    and r3': "\<not> Suc k < 100 \<longrightarrow> r3 = None"
    by (auto simp del: parse.simps)
  have n3: "elem_at (heap s3) ?n = Some ?e0"
    using f3 sB(2,4) by (simp add: elem_at_def)
  have fr3: "\<forall>x < ?n. heap s3 x = heap s x" using f3 sB(2,3) by simp
  show ?case
  proof (cases "Suc k < 100")
    case False
    with r3' un p3 have "parse (chain_loader after) (chain_name k) d s k False origin = Some (Some ?n, s3)"
      by simp
    with e3 sB(1,2) fr3 n3 g3 k(1) show ?thesis by (auto simp del: parse.simps)
  next
    case True
    with r3 have prog: "r3 = Some (nxt sB)" "elem_at (heap s3) (nxt sB) = Some ?e0" by auto
    from spliceIncluded_empty[where s = s3 and d = ?d0 and p = ?e0 and r = "nxt sB" and re = ?e0]
      n3 prog(2)
    obtain s4 where
      s4: "spliceIncluded ?d0 0 (nxt sB) s3 = Some s4" "errors s4 = errors s3" "nxt s4 = nxt s3"
        "\<forall>x. x \<noteq> ?n \<longrightarrow> heap s4 x = heap s3 x" "elem_at (heap s4) ?n = Some ?e0"
      by auto
    from un p3 prog(1) s4(1)
    have "parse (chain_loader after) (chain_name k) d s k False origin = Some (Some ?n, s4)"
      by simp
    moreover have "\<forall>x < ?n. heap s4 x = heap s x" using s4(4) fr3 by simp
    ultimately show ?thesis using e3 sB(1,2) s4(2,3,5) g3 k(1) by (auto simp del: parse.simps)
  qed
qed

text \<open>A tree without elements below the root has no macro to expand.\<close>

lemma expandMacros_leaf:
  assumes "elem_at (heap s) root = Some e" and "children e = []" and "root < nxt s"
  shows "expandMacros ldr root s nesting = Some s"
proof -
  have "walk (visitAfter ldr) (heap s) (nxt s) [] root = Some []"
    using assms by (subst walk.simps) (auto simp: elem_at_def Let_def split: option.splits node.splits)
  then show ?thesis by (subst expandMacros.simps) simp
qed

lemma chain_load:
  "\<exists>ast s a. load (chain_loader after) (chain_name 0) = Some (Some ast, s)
     \<and> errors s = [CodeError Error ''too many nested inclusions'' a]"
proof -
  from chain_parse[where k = 0 and d = "''.''" and s = new_session and after = after
                       and origin = None]
  obtain s' a where
    p: "parse (chain_loader after) (chain_name 0) ''.'' new_session 0 False None
          = Some (Some (nxt new_session), s')"
    and e: "errors s' = errors new_session @ [CodeError Error ''too many nested inclusions'' a]"
    and r: "nxt new_session < nxt s'" "elem_at (heap s') (nxt new_session)
                     = Some \<lparr>tag = ''html'', attributes = [], selfClosing = False,
                             closingTag = Some ''html'', children = []\<rparr>"
    by (auto simp del: parse.simps)
  have x: "expandMacros (chain_loader after) (nxt new_session) s' 0 = Some s'"
    by (rule expandMacros_leaf[OF r(2) _ r(1)]) simp
  have "load (chain_loader after) (chain_name 0) = Some (Some (nxt new_session), s')"
    unfolding load_def p using x by simp
  with e show ?thesis by (auto simp: new_session_def)
qed


text \<open>
  C2. \<open>parse\<close> entered with a nesting of \<open>MAX_NESTING = 100\<close> or more records
  \<open>too many nested inclusions\<close> and returns no tree, so that no file is read at a
  depth of 100. In the chain of 101 files the last one is asked for at nesting 100:
  the load returns the tree of the first file and a session whose only diagnostic is
  that one.
\<close>

theorem C2_inclusion_depth_is_bounded:
  "MAX_NESTING = 100
   \<and> (MAX_NESTING \<le> nesting \<longrightarrow>
        parse ldr fname currDir s nesting once from
          = Some (None, push_error (CodeError Error ''too many nested inclusions'' from) s))
   \<and> (\<exists>ast s' a. load (chain_loader after) (chain_name 0) = Some (Some ast, s')
          \<and> errors s' = [CodeError Error ''too many nested inclusions'' a])"
  using chain_load[of after] by (simp add: MAX_NESTING_def)

theorem C2_witness:
  "MAX_NESTING \<le> 100
   \<and> parse (chain_loader True) (chain_name 100) ''/'' new_session 100 False (Some 7)
       = Some (None, push_error (CodeError Error ''too many nested inclusions'' (Some 7))
                       new_session)
   \<and> (\<exists>ast s' a. load (chain_loader True) (chain_name 0) = Some (Some ast, s')
          \<and> errors s' = [CodeError Error ''too many nested inclusions'' a])"
proof -
  have n: "MAX_NESTING \<le> 100" by (simp add: MAX_NESTING_def)
  from C2_inclusion_depth_is_bounded[of 100 "chain_loader True" "chain_name 100" "''/''"
         new_session False "Some 7" True] n
  show ?thesis by blast
qed


end
